theory Spec2Isabelle
  imports Complex_Main "HOL-Library.Word"
begin

section \<open>JavaScript values\<close>

text \<open>
  A JavaScript string is a sequence of 16-bit code units. \<open>utf16\<close> writes an ASCII
  literal as such a sequence.
\<close>

type_synonym jsstring = "16 word list"

definition utf16 :: "string \<Rightarrow> jsstring" where
  "utf16 cs = map of_char cs"

text \<open>
  \<open>String.prototype.trim\<close> strips the code units of the ECMAScript productions
  WhiteSpace and LineTerminator from both ends.
\<close>

definition isWhiteSpace :: "16 word \<Rightarrow> bool" where
  "isWhiteSpace c \<longleftrightarrow>
     c \<in> {0x9, 0xA, 0xB, 0xC, 0xD, 0x20, 0xA0, 0x1680, 0x2028, 0x2029,
          0x202F, 0x205F, 0x3000, 0xFEFF}
     \<or> (0x2000 \<le> c \<and> c \<le> 0x200A)"

definition trim :: "jsstring \<Rightarrow> jsstring" where
  "trim s = rev (dropWhile isWhiteSpace (rev (dropWhile isWhiteSpace s)))"

text \<open>
  A JavaScript number. The finite doubles are embedded in the reals; the product of a
  32-bit float sample (24-bit significand) with 32767 (15 bits) is exact in double
  precision, so \<open>multiply\<close> on finite values is the real product.
\<close>

datatype number = Finite real | NaN | PosInfinity | NegInfinity

fun multiply :: "number \<Rightarrow> real \<Rightarrow> number" where
  "multiply (Finite x) c = Finite (x * c)"
| "multiply NaN c = NaN"
| "multiply PosInfinity c = (if 0 < c then PosInfinity else if c < 0 then NegInfinity else NaN)"
| "multiply NegInfinity c = (if 0 < c then NegInfinity else if c < 0 then PosInfinity else NaN)"

definition truncate_real :: "real \<Rightarrow> int" where
  "truncate_real x = (if 0 \<le> x then \<lfloor>x\<rfloor> else \<lceil>x\<rceil>)"

text \<open>
  Storing into an \<open>Int16Array\<close> slot applies ToInt16: a non-finite number becomes 0,
  a finite one is truncated towards zero and reduced modulo \<open>2 ^ 16\<close>.
\<close>

fun ToInt16 :: "number \<Rightarrow> 16 word" where
  "ToInt16 (Finite x) = word_of_int (truncate_real x)"
| "ToInt16 NaN = 0"
| "ToInt16 PosInfinity = 0"
| "ToInt16 NegInfinity = 0"

section \<open>React state\<close>

text \<open>
  A \<open>useState\<close> cell whose setter is called with updater functions
  (\<open>setTranscripts(prev => ...)\<close>, \<open>setMessages(prev => ...)\<close>). React batches state
  updates: the setter does not run the updater, it queues it, and the next render, which
  comes after the running handler has returned or reached an \<open>await\<close>, applies the queue
  in order to the last rendered value. An updater is a closure; what it reads from
  mutable variables (a ref's \<open>current\<close>, a \<open>let\<close> binding) it reads when it runs, so
  here it takes these variables (\<open>'e\<close>) as an argument. The one exception is React's
  eager path: when the component has no update pending at all (\<open>idle\<close>), the updater is
  run at once against the last rendered value and its result is queued instead.

  A cell that is only ever set to plain values (\<open>interviewState\<close>, \<open>error\<close>,
  \<open>isTalking\<close>, \<open>input\<close>, \<open>isLoading\<close>) is a plain field below: the field holds the
  value last set, which is what the next render shows.
\<close>

record ('e, 'a) hook =
  rendered :: 'a
  pending :: "('e \<Rightarrow> 'a \<Rightarrow> 'a) list"

definition dispatch :: "bool \<Rightarrow> 'e \<Rightarrow> ('e \<Rightarrow> 'a \<Rightarrow> 'a) \<Rightarrow> ('e, 'a) hook \<Rightarrow> ('e, 'a) hook" where
  "dispatch idle env u h =
     (if idle \<and> pending h = []
      then h\<lparr>pending := [\<lambda>_ _. u env (rendered h)]\<rparr>
      else h\<lparr>pending := pending h @ [u]\<rparr>)"

definition flush :: "'e \<Rightarrow> ('e, 'a) hook \<Rightarrow> ('e, 'a) hook" where
  "flush env h = \<lparr>rendered = foldl (\<lambda>a u. u env a) (rendered h) (pending h), pending = []\<rparr>"

text \<open>What a render with the variables \<open>env\<close> would show.\<close>

definition outcome :: "'e \<Rightarrow> ('e, 'a) hook \<Rightarrow> 'a" where
  "outcome env h = foldl (\<lambda>a u. u env a) (rendered h) (pending h)"

section \<open>The interview component\<close>

datatype InterviewState = Setup | In_Progress | Finished | Error_State

datatype Speaker = User | Model

record TranscriptEntry =
  speaker :: Speaker
  entry_text :: jsstring

text \<open>
  \<open>LiveServerMessage\<close>, reduced to what \<open>handleLiveMessage\<close> reads: the texts of
  \<open>serverContent.inputTranscription\<close> and \<open>serverContent.outputTranscription\<close> (\<open>None\<close>
  when the object is absent), \<open>serverContent.turnComplete\<close>, the base64 string that the
  chain \<open>serverContent?.modelTurn?.parts[0]?.inlineData?.data\<close> yields (\<open>None\<close> when it
  yields undefined), and \<open>serverContent.interrupted\<close>. An absent flag is \<open>False\<close>.
\<close>

record LiveServerMessage =
  inputTranscription :: "jsstring option"
  outputTranscription :: "jsstring option"
  turnComplete :: bool
  inlineData :: "jsstring option"
  interrupted :: bool

text \<open>
  What the surroundings supply while one message is handled: the output context's
  \<open>currentTime\<close> as read by \<open>Math.max\<close>; the outcome of
  \<open>decodeAudioData(decode(base64Audio), ...)\<close>, which is the \<open>duration\<close> of the buffer
  returned, or \<open>None\<close> when the chunk is malformed and the call throws (the module
  \<open>utils\<close> is not among the sources; the specification names this failure DecodeError
  and notes that the handler does not guard it); and whether the component is idle for
  React.
\<close>

record environment =
  currentTime :: real
  decoded :: "real option"
  idle :: bool

text \<open>The calls the component makes on the browser and on the SDK, in order.\<close>

datatype call =
    GetUserMedia
  | Connect jsstring jsstring
  | SessionClose
  | SourceStart nat real
  | SourceStop nat

text \<open>How a source node left \<open>sourcesRef\<close>.\<close>

datatype removal = NaturalCompletion | ForcedStop

text \<open>
  The component's state: the \<open>useState\<close> cells, the refs, and three fields of
  bookkeeping. An \<open>AudioBufferSourceNode\<close> is identified by its creation number
  (\<open>created\<close> counts the nodes made so far); \<open>sources\<close> is the \<open>Set\<close> in insertion
  order; \<open>calls\<close> is the trace of external calls; \<open>removed\<close> records each node that
  left the set and how. A ref to an audio context or processor is a flag: set when the
  ref holds an open object.
\<close>

record interview =
  interviewState :: InterviewState
  jobRole :: jsstring
  jobDescription :: jsstring
  error :: "jsstring option"
  transcripts :: "(jsstring \<times> jsstring, TranscriptEntry list) hook"
  isTalking :: bool
  sessionPromise :: bool
  audioContext :: bool
  outputAudioContext :: bool
  processor :: bool
  currentInputTranscription :: jsstring
  currentOutputTranscription :: jsstring
  nextStartTime :: real
  sources :: "nat list"
  created :: nat
  calls :: "call list"
  removed :: "(nat \<times> removal) list"

definition set_add :: "nat \<Rightarrow> nat list \<Rightarrow> nat list" where
  "set_add h xs = (if h \<in> set xs then xs else xs @ [h])"

definition set_delete :: "nat \<Rightarrow> nat list \<Rightarrow> nat list" where
  "set_delete h xs = filter (\<lambda>x. x \<noteq> h) xs"

definition refs :: "interview \<Rightarrow> jsstring \<times> jsstring" where
  "refs s = (currentInputTranscription s, currentOutputTranscription s)"

text \<open>A render of the component applies the queued transcript updaters.\<close>

definition render :: "interview \<Rightarrow> interview" where
  "render s = s\<lparr>transcripts := flush (refs s) (transcripts s)\<rparr>"

definition stopAudioProcessing :: "interview \<Rightarrow> interview" where
  "stopAudioProcessing s =
     s\<lparr>processor := False, audioContext := False, outputAudioContext := False,
       calls := calls s @ map SourceStop (sources s),
       removed := removed s @ map (\<lambda>h. (h, ForcedStop)) (sources s),
       sources := []\<rparr>"

definition fill_in_both :: jsstring where
  "fill_in_both = utf16 ''Please fill in both job role and description.''"

definition no_microphone :: jsstring where
  "no_microphone = utf16 ''Could not access microphone. Please check permissions.''"

definition session_error :: jsstring where
  "session_error = utf16 ''An error occurred during the interview.''"

text \<open>
  \<open>startInterview\<close> is asynchronous. \<open>startInterview_sync\<close> is its body up to the
  \<open>await\<close> on \<open>getUserMedia\<close>; the flag says whether that point was reached.
  \<open>startInterview_resume\<close> is the rest, run when the microphone request settles: the
  connection when it is granted, the \<open>catch\<close> block when it is denied. The reset of
  \<open>sourcesRef\<close> empties the set without stopping anything, so it adds nothing to
  \<open>removed\<close>.
\<close>

definition startInterview_sync :: "interview \<Rightarrow> interview \<times> bool" where
  "startInterview_sync s =
     (if trim (jobRole s) = [] \<or> trim (jobDescription s) = []
      then (s\<lparr>error := Some fill_in_both\<rparr>, False)
      else (s\<lparr>error := None,
               transcripts := (transcripts s)\<lparr>pending := pending (transcripts s) @ [\<lambda>_ _. []]\<rparr>,
               interviewState := In_Progress,
               currentInputTranscription := [],
               currentOutputTranscription := [],
               nextStartTime := 0,
               sources := [],
               calls := calls s @ [GetUserMedia]\<rparr>, True))"

datatype microphone = Granted | Denied

definition startInterview_resume :: "microphone \<Rightarrow> interview \<Rightarrow> interview" where
  "startInterview_resume mic s =
     (case mic of
        Granted \<Rightarrow> s\<lparr>sessionPromise := True,
                     calls := calls s @ [Connect (jobRole s) (jobDescription s)]\<rparr>
      | Denied \<Rightarrow> s\<lparr>error := Some no_microphone, interviewState := Error_State\<rparr>)"

text \<open>The states the component passes through: at the \<open>await\<close>, and at the end.\<close>

definition startInterview_states :: "microphone \<Rightarrow> interview \<Rightarrow> interview list" where
  "startInterview_states mic s =
     (case startInterview_sync s of
        (s1, True) \<Rightarrow> [s1, startInterview_resume mic s1]
      | (s1, False) \<Rightarrow> [s1])"

definition startInterview :: "microphone \<Rightarrow> interview \<Rightarrow> interview" where
  "startInterview mic s = last (startInterview_states mic s)"

definition onopen :: "interview \<Rightarrow> interview" where
  "onopen s = s\<lparr>audioContext := True, outputAudioContext := True, processor := True\<rparr>"

definition onerror :: "interview \<Rightarrow> interview" where
  "onerror s = stopAudioProcessing (s\<lparr>error := Some session_error, interviewState := Error_State\<rparr>)"

definition onclose :: "interview \<Rightarrow> interview" where
  "onclose s = stopAudioProcessing s"

text \<open>
  \<open>endInterview\<close> asks for the session to be closed in a callback of the session
  promise, which runs after the body: \<open>session.close()\<close> comes after the \<open>stop\<close> calls
  of \<open>stopAudioProcessing\<close>.
\<close>

definition endInterview :: "interview \<Rightarrow> interview" where
  "endInterview s =
     (let s1 = stopAudioProcessing (s\<lparr>sessionPromise := False\<rparr>)
      in s1\<lparr>interviewState := Finished, isTalking := False,
            calls := calls s1 @ (if sessionPromise s then [SessionClose] else [])\<rparr>)"

text \<open>The button of the finished view: \<open>setInterviewState('setup')\<close>.\<close>

definition startAnother :: "interview \<Rightarrow> interview" where
  "startAnother s = s\<lparr>interviewState := Setup\<rparr>"

text \<open>The \<open>ended\<close> listener of source node \<open>h\<close>: \<open>sourcesRef.current.delete(source)\<close>.\<close>

definition source_ended :: "nat \<Rightarrow> interview \<Rightarrow> interview" where
  "source_ended h s =
     s\<lparr>sources := set_delete h (sources s),
       removed := removed s @ (if h \<in> set (sources s) then [(h, NaturalCompletion)] else [])\<rparr>"

subsection \<open>\<open>handleLiveMessage\<close>, block by block\<close>

definition transcription_part :: "LiveServerMessage \<Rightarrow> interview \<Rightarrow> interview" where
  "transcription_part m s =
     (let s1 = (case inputTranscription m of
                  Some t \<Rightarrow> s\<lparr>currentInputTranscription := currentInputTranscription s @ t,
                              isTalking := True\<rparr>
                | None \<Rightarrow> s)
      in case outputTranscription m of
           Some t \<Rightarrow> s1\<lparr>currentOutputTranscription := currentOutputTranscription s1 @ t\<rparr>
         | None \<Rightarrow> s1)"

text \<open>
  The two updaters of the turn-complete block. Each reads its ref when it runs.
\<close>

definition append_user :: "jsstring \<times> jsstring \<Rightarrow> TranscriptEntry list \<Rightarrow> TranscriptEntry list" where
  "append_user r prev = prev @ [\<lparr>speaker = User, entry_text = trim (fst r)\<rparr>]"

definition append_model :: "jsstring \<times> jsstring \<Rightarrow> TranscriptEntry list \<Rightarrow> TranscriptEntry list" where
  "append_model r prev = prev @ [\<lparr>speaker = Model, entry_text = trim (snd r)\<rparr>]"

definition turnComplete_part :: "environment \<Rightarrow> LiveServerMessage \<Rightarrow> interview \<Rightarrow> interview" where
  "turnComplete_part env m s =
     (if turnComplete m then
        (let t1 = (if trim (currentInputTranscription s) \<noteq> []
                   then dispatch (idle env) (refs s) append_user (transcripts s)
                   else transcripts s);
             t2 = (if trim (currentOutputTranscription s) \<noteq> []
                   then dispatch (idle env) (refs s) append_model t1
                   else t1)
         in s\<lparr>transcripts := t2,
              currentInputTranscription := [],
              currentOutputTranscription := [],
              isTalking := False\<rparr>)
      else s)"

text \<open>
  The handler is asynchronous and awaits the decoding. Its result is the state it leaves
  behind, tagged with how its promise settles: \<open>Handled\<close> when the body ran to its
  end, \<open>DecodeError\<close> when the decoding threw. Nothing catches the exception, so the
  rest of the body, the interruption block included, is then skipped.
\<close>

datatype handled = Handled interview | DecodeError interview

fun after :: "handled \<Rightarrow> interview" where
  "after (Handled s) = s"
| "after (DecodeError s) = s"

definition audio_part :: "environment \<Rightarrow> LiveServerMessage \<Rightarrow> interview \<Rightarrow> handled" where
  "audio_part env m s =
     (case inlineData m of
        None \<Rightarrow> Handled s
      | Some base64Audio \<Rightarrow>
          if base64Audio \<noteq> [] \<and> outputAudioContext s then
            (let s1 = s\<lparr>nextStartTime := max (nextStartTime s) (currentTime env)\<rparr>
             in case decoded env of
                  None \<Rightarrow> DecodeError s1
                | Some duration \<Rightarrow>
                    (let source = created s1
                     in Handled
                          (s1\<lparr>created := Suc source,
                              calls := calls s1 @ [SourceStart source (nextStartTime s1)],
                              nextStartTime := nextStartTime s1 + duration,
                              sources := set_add source (sources s1)\<rparr>)))
          else Handled s)"

definition interrupted_part :: "LiveServerMessage \<Rightarrow> interview \<Rightarrow> interview" where
  "interrupted_part m s =
     (if interrupted m then
        s\<lparr>calls := calls s @ map SourceStop (sources s),
          removed := removed s @ map (\<lambda>h. (h, ForcedStop)) (sources s),
          sources := [],
          nextStartTime := 0\<rparr>
      else s)"

definition handleLiveMessage :: "environment \<Rightarrow> LiveServerMessage \<Rightarrow> interview \<Rightarrow> handled" where
  "handleLiveMessage env m s =
     (case audio_part env m (turnComplete_part env m (transcription_part m s)) of
        Handled s1 \<Rightarrow> Handled (interrupted_part m s1)
      | DecodeError s1 \<Rightarrow> DecodeError s1)"

text \<open>The state once the handler's promise has settled, either way.\<close>

definition settled :: "environment \<Rightarrow> LiveServerMessage \<Rightarrow> interview \<Rightarrow> interview" where
  "settled env m s = after (handleLiveMessage env m s)"

subsection \<open>Runs of the component\<close>

text \<open>The component as mounted: the initial values of its \<open>useState\<close> and \<open>useRef\<close> calls.\<close>

definition mounted :: interview where
  "mounted =
     \<lparr>interviewState = Setup, jobRole = [], jobDescription = [], error = None,
      transcripts = \<lparr>rendered = [], pending = []\<rparr>, isTalking = False,
      sessionPromise = False, audioContext = False, outputAudioContext = False,
      processor = False, currentInputTranscription = [], currentOutputTranscription = [],
      nextStartTime = 0, sources = [], created = 0, calls = [], removed = []\<rparr>"

text \<open>
  The events of the component: the three buttons (start, end, start another), the
  callbacks of the connection, the \<open>ended\<close> listeners of the source nodes, and the
  renders. Each is handled to completion before the next (an \<open>await\<close> settles before
  the next event is taken).
\<close>

datatype event =
    StartInterview microphone
  | OnOpen
  | OnMessage environment LiveServerMessage
  | SourceEnded nat
  | OnError
  | OnClose
  | EndInterview
  | StartAnother
  | Render

fun step :: "interview \<Rightarrow> event \<Rightarrow> interview" where
  "step s (StartInterview mic) = startInterview mic s"
| "step s OnOpen = onopen s"
| "step s (OnMessage env m) = settled env m s"
| "step s (SourceEnded h) = source_ended h s"
| "step s OnError = onerror s"
| "step s OnClose = onclose s"
| "step s EndInterview = endInterview s"
| "step s StartAnother = startAnother s"
| "step s Render = render s"

definition run :: "event list \<Rightarrow> interview \<Rightarrow> interview" where
  "run evs s = foldl step s evs"

text \<open>A message that carries an audio chunk: \<open>base64Audio\<close> is a non-empty string.\<close>

definition has_audio :: "LiveServerMessage \<Rightarrow> bool" where
  "has_audio m = (case inlineData m of Some b \<Rightarrow> b \<noteq> [] | None \<Rightarrow> False)"


text \<open>The calls made between two states, and the start times among a list of calls.\<close>

definition new_calls :: "interview \<Rightarrow> interview \<Rightarrow> call list" where
  "new_calls s s' = drop (length (calls s)) (calls s')"

fun start_times :: "call list \<Rightarrow> real list" where
  "start_times [] = []"
| "start_times (SourceStart h t # cs) = t # start_times cs"
| "start_times (c # cs) = start_times cs"

definition handle_all :: "(environment \<times> LiveServerMessage) list \<Rightarrow> interview \<Rightarrow> interview" where
  "handle_all segs s = foldl (\<lambda>s (env, m). settled env m s) s segs"

text \<open>
  The scheduling rule in the specification's words: a segment starts at the later of the
  cursor and the clock, and the cursor moves to the end of the segment. Segments are
  pairs of clock reading and duration.
\<close>

fun spec_schedule :: "real \<Rightarrow> (real \<times> real) list \<Rightarrow> real list" where
  "spec_schedule cursor [] = []"
| "spec_schedule cursor ((now, d) # segs) =
     max cursor now # spec_schedule (max cursor now + d) segs"

fun spec_cursor :: "real \<Rightarrow> (real \<times> real) list \<Rightarrow> real" where
  "spec_cursor cursor [] = cursor"
| "spec_cursor cursor ((now, d) # segs) = spec_cursor (max cursor now + d) segs"

definition duration :: "environment \<Rightarrow> real" where
  "duration env = (case decoded env of Some d \<Rightarrow> d | None \<Rightarrow> 0)"

definition clock_and_duration :: "environment \<times> LiveServerMessage \<Rightarrow> real \<times> real" where
  "clock_and_duration p = (currentTime (fst p), duration (fst p))"

text \<open>A decoded audio segment that comes with no interruption.\<close>

definition segment :: "environment \<times> LiveServerMessage \<Rightarrow> bool" where
  "segment p \<longleftrightarrow> has_audio (snd p) \<and> decoded (fst p) \<noteq> None \<and> \<not> interrupted (snd p)"

text \<open>The decoding, if the handler gets to it, does not throw.\<close>

definition decodes :: "environment \<Rightarrow> LiveServerMessage \<Rightarrow> interview \<Rightarrow> bool" where
  "decodes env m s \<longleftrightarrow> \<not> (has_audio m \<and> outputAudioContext s \<and> decoded env = None)"

definition scheduled_starts :: "(environment \<times> LiveServerMessage) list \<Rightarrow> interview \<Rightarrow> real list" where
  "scheduled_starts segs s = start_times (new_calls s (handle_all segs s))"







section \<open>The PCM codec\<close>

text \<open>
  The body of \<open>onaudioprocess\<close>: each sample of the input block is multiplied by 32767
  and stored in an \<open>Int16Array\<close>; the array's buffer is then read as bytes (little
  endian) and handed to \<open>encode\<close>.
\<close>

definition int16_sample :: "number \<Rightarrow> 16 word" where
  "int16_sample x = ToInt16 (multiply x 32767)"

definition int16_block :: "number list \<Rightarrow> 16 word list" where
  "int16_block inputData = map int16_sample inputData"

fun int16_bytes :: "16 word list \<Rightarrow> 8 word list" where
  "int16_bytes [] = []"
| "int16_bytes (w # ws) = ucast w # ucast (drop_bit 8 w) # int16_bytes ws"

text \<open>
  Modelled from the spec: the base64 alphabet used by \<open>encode\<close> and \<open>decode\<close> of the
  module \<open>utils\<close>, which is not among the sources. The specification describes the
  payload as the base64 encoding of the block's raw bytes; this is the standard
  alphabet, a six-bit value to its character.
\<close>

definition b64_char :: "nat \<Rightarrow> char" where
  "b64_char n =
     (if n < 26 then char_of (65 + n)
      else if n < 52 then char_of (71 + n)
      else if n < 62 then char_of (n - 4)
      else if n = 62 then CHR ''+'' else CHR ''/'')"

text \<open>
  Modelled from the spec: the value of a base64 character (missing with \<open>utils\<close>);
  \<open>None\<close> for a character outside the alphabet.
\<close>

definition b64_value :: "char \<Rightarrow> nat option" where
  "b64_value c =
     (let k = of_char c :: nat in
      if 65 \<le> k \<and> k \<le> 90 then Some (k - 65)
      else if 97 \<le> k \<and> k \<le> 122 then Some (k - 71)
      else if 48 \<le> k \<and> k \<le> 57 then Some (k + 4)
      else if k = 43 then Some 62
      else if k = 47 then Some 63
      else None)"

text \<open>
  Modelled from the spec: \<open>encode\<close> of \<open>utils\<close>, the base64 text of a byte sequence,
  three bytes to four characters, padded with \<open>=\<close>.
\<close>

fun encode :: "8 word list \<Rightarrow> string" where
  "encode (a # b # c # bs) =
     b64_char (unat a div 4)
     # b64_char (unat a mod 4 * 16 + unat b div 16)
     # b64_char (unat b mod 16 * 4 + unat c div 64)
     # b64_char (unat c mod 64)
     # encode bs"
| "encode [a, b] =
     [b64_char (unat a div 4),
      b64_char (unat a mod 4 * 16 + unat b div 16),
      b64_char (unat b mod 16 * 4),
      CHR ''='']"
| "encode [a] =
     [b64_char (unat a div 4),
      b64_char (unat a mod 4 * 16),
      CHR ''='', CHR ''='']"
| "encode [] = []"

text \<open>
  Modelled from the spec: \<open>decode\<close> of \<open>utils\<close>, the bytes of a base64 text; it fails
  (\<open>None\<close>) on text that is not a padded base64 encoding.
\<close>

fun decode :: "string \<Rightarrow> 8 word list option" where
  "decode [] = Some []"
| "decode [w, x, y, z] =
     (case (b64_value w, b64_value x) of
        (Some p, Some q) \<Rightarrow>
          if y = CHR ''='' \<and> z = CHR ''='' then Some [of_nat (p * 4 + q div 16)]
          else (case b64_value y of
                  Some r \<Rightarrow>
                    if z = CHR ''=''
                    then Some [of_nat (p * 4 + q div 16), of_nat (q mod 16 * 16 + r div 4)]
                    else (case b64_value z of
                            Some t \<Rightarrow>
                              Some [of_nat (p * 4 + q div 16), of_nat (q mod 16 * 16 + r div 4),
                                    of_nat (r mod 4 * 64 + t)]
                          | None \<Rightarrow> None)
                | None \<Rightarrow> None)
      | _ \<Rightarrow> None)"
| "decode (w # x # y # z # cs) =
     (case (b64_value w, b64_value x, b64_value y, b64_value z, decode cs) of
        (Some p, Some q, Some r, Some t, Some bs) \<Rightarrow>
          Some (of_nat (p * 4 + q div 16) # of_nat (q mod 16 * 16 + r div 4)
                # of_nat (r mod 4 * 64 + t) # bs)
      | _ \<Rightarrow> None)"
| "decode cs = None"

text \<open>
  Modelled from the spec: the reading of the decoded bytes as signed 16-bit samples,
  little endian (done in \<open>decodeAudioData\<close> of \<open>utils\<close>).
\<close>

fun bytes_int16 :: "8 word list \<Rightarrow> 16 word list" where
  "bytes_int16 (lo # hi # bs) = (or (ucast lo) (push_bit 8 (ucast hi))) # bytes_int16 bs"
| "bytes_int16 bs = []"

text \<open>The \<open>data\<close> of the blob sent for one input block.\<close>

definition pcm_payload :: "number list \<Rightarrow> string" where
  "pcm_payload inputData = encode (int16_bytes (int16_block inputData))"

text \<open>
  Modelled from the spec: the decoding of a payload into its sequence of signed 16-bit
  samples (\<open>decode\<close> and the sample reading of \<open>utils\<close>).
\<close>

definition decode_payload :: "string \<Rightarrow> 16 word list option" where
  "decode_payload payload = map_option bytes_int16 (decode payload)"

section \<open>The chat component\<close>

text \<open>
  \<open>sendMessage\<close> is asynchronous: its body up to the \<open>await\<close> on \<open>streamChatResponse\<close>
  (\<open>sendMessage\<close>), the bindings made when the stream is there (\<open>stream_opened\<close>), one
  turn of the \<open>for await\<close> loop (\<open>stream_chunk\<close>), the \<open>catch\<close> and \<open>finally\<close> blocks
  (\<open>stream_failed\<close>), and \<open>finally\<close> alone (\<open>stream_finished\<close>). The stream itself comes
  from \<open>streamChatResponse\<close> of the service module and is a parameter here. The updaters
  of the loop read the \<open>let\<close> variables \<open>fullText\<close> and \<open>allSources\<close> when they run.
\<close>

datatype Sender = UserSender | BotSender

record GroundingSource =
  title :: jsstring
  uri :: jsstring

record ChatMessage =
  sender :: Sender
  message_text :: jsstring
  message_sources :: "GroundingSource list option"

text \<open>
  A chunk of the response stream, reduced to what the loop reads: \<open>chunk.text\<close> and
  \<open>chunk.candidates?.[0]?.groundingMetadata?.groundingChunks\<close>, whose elements have an
  optional \<open>web\<close> and an optional \<open>maps\<close> object, each with an optional title and uri.
\<close>

record place =
  place_title :: "jsstring option"
  place_uri :: "jsstring option"

record groundingChunk =
  web :: "place option"
  maps_place :: "place option"

record stream_chunk =
  chunk_text :: jsstring
  groundingChunks :: "groundingChunk list option"

text \<open>JavaScript's \<open>a || b\<close> on strings that may be undefined: a non-empty \<open>a\<close>, else \<open>b\<close>.\<close>

definition or_else :: "jsstring option \<Rightarrow> jsstring option \<Rightarrow> jsstring option" where
  "or_else a b = (case a of Some x \<Rightarrow> if x \<noteq> [] then a else b | None \<Rightarrow> b)"

definition chunk_title :: "groundingChunk \<Rightarrow> jsstring" where
  "chunk_title c =
     (case or_else (or_else (Option.bind (web c) place_title) (Option.bind (maps_place c) place_title))
             (Some (utf16 ''Source'')) of
        Some t \<Rightarrow> t | None \<Rightarrow> utf16 ''Source'')"

definition chunk_uri :: "groundingChunk \<Rightarrow> jsstring option" where
  "chunk_uri c = or_else (Option.bind (web c) place_uri) (Option.bind (maps_place c) place_uri)"

text \<open>
  The sources a chunk adds: the mapped grounding chunks whose uri is a non-empty string
  that no source collected from earlier chunks has.
\<close>

definition new_sources :: "GroundingSource list \<Rightarrow> groundingChunk list \<Rightarrow> GroundingSource list" where
  "new_sources allSources cs =
     List.map_filter
       (\<lambda>c. case chunk_uri c of
               Some u \<Rightarrow> if u \<noteq> [] \<and> \<not> list_ex (\<lambda>as. uri as = u) allSources
                         then Some \<lparr>title = chunk_title c, uri = u\<rparr> else None
             | None \<Rightarrow> None)
       cs"

text \<open>
  The component's state. \<open>chat\<close> says whether the session object is there;
  \<open>fullText\<close> and \<open>allSources\<close> are the \<open>let\<close> variables of the running
  \<open>sendMessage\<close>; \<open>requests\<close> lists the calls of \<open>streamChatResponse\<close>, each with its
  text and grounding flag.
\<close>

record chatbot =
  chat :: bool
  messages :: "(jsstring \<times> GroundingSource list, ChatMessage list) hook"
  input :: jsstring
  isLoading :: bool
  useGrounding :: bool
  fullText :: jsstring
  allSources :: "GroundingSource list"
  requests :: "(jsstring \<times> bool) list"

definition closure :: "chatbot \<Rightarrow> jsstring \<times> GroundingSource list" where
  "closure s = (fullText s, allSources s)"

text \<open>
  \<open>prev.map((msg, index) => index === prev.length - 1 ? f(msg) : msg)\<close>, and the two
  updaters built on it: the one of the loop and the one of the \<open>catch\<close> block.
\<close>

definition map_last :: "(ChatMessage \<Rightarrow> ChatMessage) \<Rightarrow> ChatMessage list \<Rightarrow> ChatMessage list" where
  "map_last f prev =
     map (\<lambda>(index, msg). if int index = int (length prev) - 1 then f msg else msg)
       (enumerate 0 prev)"

definition show_stream :: "jsstring \<times> GroundingSource list \<Rightarrow> ChatMessage list \<Rightarrow> ChatMessage list" where
  "show_stream env prev =
     map_last (\<lambda>msg. msg\<lparr>message_text := fst env, message_sources := Some (snd env)\<rparr>) prev"

definition chat_error :: jsstring where
  "chat_error = utf16 ''Sorry, I encountered an error. Please try again.''"

definition show_error :: "jsstring \<times> GroundingSource list \<Rightarrow> ChatMessage list \<Rightarrow> ChatMessage list" where
  "show_error env prev = map_last (\<lambda>msg. msg\<lparr>message_text := chat_error\<rparr>) prev"

definition userMessage :: "chatbot \<Rightarrow> ChatMessage" where
  "userMessage s = \<lparr>sender = UserSender, message_text = input s, message_sources = None\<rparr>"

definition botMessage :: ChatMessage where
  "botMessage = \<lparr>sender = BotSender, message_text = [], message_sources = Some []\<rparr>"

definition sendMessage :: "bool \<Rightarrow> chatbot \<Rightarrow> chatbot" where
  "sendMessage quiet s =
     (if trim (input s) = [] \<or> \<not> chat s then s
      else
        (let m1 = dispatch quiet (closure s) (\<lambda>_ prev. prev @ [userMessage s]) (messages s);
             m2 = dispatch quiet (closure s) (\<lambda>_ prev. prev @ [botMessage]) m1
         in s\<lparr>messages := m2, input := [], isLoading := True,
              requests := requests s @ [(input s, useGrounding s)]\<rparr>))"

definition stream_opened :: "chatbot \<Rightarrow> chatbot" where
  "stream_opened s = s\<lparr>fullText := [], allSources := []\<rparr>"

definition stream_chunk :: "bool \<Rightarrow> stream_chunk \<Rightarrow> chatbot \<Rightarrow> chatbot" where
  "stream_chunk quiet c s =
     (let found = (case groundingChunks c of
                     Some cs \<Rightarrow> new_sources (allSources s) cs
                   | None \<Rightarrow> []);
          s1 = s\<lparr>fullText := fullText s @ chunk_text c, allSources := allSources s @ found\<rparr>
      in s1\<lparr>messages := dispatch quiet (closure s1) show_stream (messages s1)\<rparr>)"

definition stream_failed :: "bool \<Rightarrow> chatbot \<Rightarrow> chatbot" where
  "stream_failed quiet s =
     s\<lparr>messages := dispatch quiet (closure s) show_error (messages s), isLoading := False\<rparr>"

definition stream_finished :: "chatbot \<Rightarrow> chatbot" where
  "stream_finished s = s\<lparr>isLoading := False\<rparr>"

definition render_chat :: "chatbot \<Rightarrow> chatbot" where
  "render_chat s = s\<lparr>messages := flush (closure s) (messages s)\<rparr>"

datatype stream_event =
    Opened
  | Chunk bool stream_chunk
  | Failed bool
  | Completed
  | Rendered

fun stream_step :: "chatbot \<Rightarrow> stream_event \<Rightarrow> chatbot" where
  "stream_step s Opened = stream_opened s"
| "stream_step s (Chunk quiet c) = stream_chunk quiet c s"
| "stream_step s (Failed quiet) = stream_failed quiet s"
| "stream_step s Completed = stream_finished s"
| "stream_step s Rendered = render_chat s"

definition stream_run :: "stream_event list \<Rightarrow> chatbot \<Rightarrow> chatbot" where
  "stream_run evs s = foldl stream_step s evs"

text \<open>The list the next render shows.\<close>

definition shown :: "chatbot \<Rightarrow> ChatMessage list" where
  "shown s = rendered (messages (render_chat s))"


fun streaming :: "stream_event \<Rightarrow> bool" where
  "streaming (Chunk quiet c) = True"
| "streaming Rendered = True"
| "streaming ev = False"

fun streamed_text :: "stream_event list \<Rightarrow> jsstring" where
  "streamed_text [] = []"
| "streamed_text (Chunk quiet c # evs) = chunk_text c @ streamed_text evs"
| "streamed_text (ev # evs) = streamed_text evs"

text \<open>
  Two properties of a chat state, for a list \<open>old\<close> and a user message \<open>um\<close>: whatever
  the variables, the next render shows \<open>old\<close>, \<open>um\<close> and one bot message; and it shows
  the bot message with the text and sources streamed so far.
\<close>

definition appended :: "ChatMessage list \<Rightarrow> ChatMessage \<Rightarrow> chatbot \<Rightarrow> bool" where
  "appended old um s \<longleftrightarrow>
     (\<forall>env. \<exists>b. outcome env (messages s) = old @ [um, b] \<and> sender b = BotSender)"

definition streamed :: "ChatMessage list \<Rightarrow> ChatMessage \<Rightarrow> chatbot \<Rightarrow> bool" where
  "streamed old um s \<longleftrightarrow>
     outcome (closure s) (messages s)
       = old @ [um, \<lparr>sender = BotSender, message_text = fullText s,
                     message_sources = Some (allSources s)\<rparr>]"

section \<open>Example inputs\<close>

definition audio_chunk :: LiveServerMessage where
  "audio_chunk =
     \<lparr>inputTranscription = None, outputTranscription = None, turnComplete = False,
      inlineData = Some (utf16 ''AAAA''), interrupted = False\<rparr>"

definition interruption_only :: LiveServerMessage where
  "interruption_only =
     \<lparr>inputTranscription = None, outputTranscription = None, turnComplete = False,
      inlineData = None, interrupted = True\<rparr>"

definition turn_complete_only :: LiveServerMessage where
  "turn_complete_only =
     \<lparr>inputTranscription = None, outputTranscription = None, turnComplete = True,
      inlineData = None, interrupted = False\<rparr>"

definition at_time :: "real \<Rightarrow> real \<Rightarrow> bool \<Rightarrow> environment" where
  "at_time now d quiet = \<lparr>currentTime = now, decoded = Some d, idle = quiet\<rparr>"

definition three_segments :: "(environment \<times> LiveServerMessage) list" where
  "three_segments =
     [(at_time (1/2) 2 False, audio_chunk), (at_time 1 1 False, audio_chunk),
      (at_time 10 1 False, audio_chunk)]"

definition playing :: interview where
  "playing = handle_all [(at_time 0 2 False, audio_chunk), (at_time 1 3 False, audio_chunk)] (onopen mounted)"

definition setup_with :: "string \<Rightarrow> string \<Rightarrow> interview" where
  "setup_with role description = mounted\<lparr>jobRole := utf16 role, jobDescription := utf16 description\<rparr>"



definition turn_pending :: "string \<Rightarrow> string \<Rightarrow> interview" where
  "turn_pending said answered =
     mounted\<lparr>interviewState := In_Progress, isTalking := True,
             currentInputTranscription := utf16 said,
             currentOutputTranscription := utf16 answered\<rparr>"

definition chatting :: chatbot where
  "chatting =
     \<lparr>chat = True,
      messages = \<lparr>rendered = [\<lparr>sender = BotSender, message_text = utf16 ''Hello!'',
                                message_sources = None\<rparr>], pending = []\<rparr>,
      input = utf16 ''Hi'', isLoading = False, useGrounding = True,
      fullText = [], allSources = [], requests = []\<rparr>"

definition two_chunks :: "stream_event list" where
  "two_chunks =
     [Chunk False \<lparr>chunk_text = utf16 ''Good '', groundingChunks = None\<rparr>, Rendered,
      Chunk False \<lparr>chunk_text = utf16 ''day'', groundingChunks = None\<rparr>]"

section \<open>Facts about the model\<close>

subsection \<open>The scheduler\<close>

lemma transcription_part_frame [simp]:
  "nextStartTime (transcription_part m s) = nextStartTime s"
  "sources (transcription_part m s) = sources s"
  "created (transcription_part m s) = created s"
  "calls (transcription_part m s) = calls s"
  "removed (transcription_part m s) = removed s"
  "outputAudioContext (transcription_part m s) = outputAudioContext s"
  by (simp_all add: transcription_part_def Let_def split: option.splits)

lemma turnComplete_part_frame [simp]:
  "nextStartTime (turnComplete_part env m s) = nextStartTime s"
  "sources (turnComplete_part env m s) = sources s"
  "created (turnComplete_part env m s) = created s"
  "calls (turnComplete_part env m s) = calls s"
  "removed (turnComplete_part env m s) = removed s"
  "outputAudioContext (turnComplete_part env m s) = outputAudioContext s"
  by (simp_all add: turnComplete_part_def Let_def)

lemma audio_part_cases:
  "audio_part env m s =
     (if has_audio m \<and> outputAudioContext s then
        (case decoded env of
           None \<Rightarrow> DecodeError (s\<lparr>nextStartTime := max (nextStartTime s) (currentTime env)\<rparr>)
         | Some d \<Rightarrow>
             Handled (s\<lparr>created := Suc (created s),
                        calls := calls s @ [SourceStart (created s) (max (nextStartTime s) (currentTime env))],
                        nextStartTime := max (nextStartTime s) (currentTime env) + d,
                        sources := set_add (created s) (sources s)\<rparr>))
      else Handled s)"
  by (simp add: audio_part_def has_audio_def Let_def split: option.splits)

lemma handleLiveMessage_settles:
  "handleLiveMessage env m s
     = (if decodes env m s then Handled (settled env m s) else DecodeError (settled env m s))"
  by (auto simp: settled_def handleLiveMessage_def audio_part_cases decodes_def split: option.splits)

lemma settled_context [simp]:
  "outputAudioContext (settled env m s) = outputAudioContext s"
  by (auto simp: settled_def handleLiveMessage_def audio_part_cases interrupted_part_def
      split: option.splits)

lemma settled_calls:
  "calls (settled env m s) =
     calls s
     @ (if has_audio m \<and> outputAudioContext s \<and> decoded env \<noteq> None
        then [SourceStart (created s) (max (nextStartTime s) (currentTime env))] else [])
     @ (if interrupted m \<and> decodes env m s
        then map SourceStop (if has_audio m \<and> outputAudioContext s
                             then set_add (created s) (sources s) else sources s)
        else [])"
  by (auto simp: settled_def handleLiveMessage_def audio_part_cases interrupted_part_def decodes_def
      split: option.splits)

lemma settled_sources:
  "sources (settled env m s) =
     (if interrupted m \<and> decodes env m s then []
      else if has_audio m \<and> outputAudioContext s \<and> decoded env \<noteq> None
      then set_add (created s) (sources s)
      else sources s)"
  by (auto simp: settled_def handleLiveMessage_def audio_part_cases interrupted_part_def decodes_def
      split: option.splits)

lemma settled_created:
  "created (settled env m s) =
     (if has_audio m \<and> outputAudioContext s \<and> decoded env \<noteq> None
      then Suc (created s) else created s)"
  by (auto simp: settled_def handleLiveMessage_def audio_part_cases interrupted_part_def
      split: option.splits)

lemma settled_removed:
  "removed (settled env m s) =
     removed s @ (if interrupted m \<and> decodes env m s
                  then map (\<lambda>h. (h, ForcedStop))
                         (if has_audio m \<and> outputAudioContext s
                          then set_add (created s) (sources s) else sources s)
                  else [])"
  by (auto simp: settled_def handleLiveMessage_def audio_part_cases interrupted_part_def decodes_def
      split: option.splits)

lemma settled_nextStartTime:
  "nextStartTime (settled env m s) =
     (if interrupted m \<and> decodes env m s then 0
      else if has_audio m \<and> outputAudioContext s
      then max (nextStartTime s) (currentTime env) + duration env
      else nextStartTime s)"
  by (auto simp: settled_def handleLiveMessage_def audio_part_cases interrupted_part_def decodes_def
      duration_def
      split: option.splits)

lemma settled_segment:
  assumes "segment (env, m)" and "outputAudioContext s"
  shows "nextStartTime (settled env m s) = max (nextStartTime s) (currentTime env) + duration env"
    and "calls (settled env m s) = calls s @ [SourceStart (created s) (max (nextStartTime s) (currentTime env))]"
  using assms by (simp_all add: segment_def settled_nextStartTime settled_calls)

lemma handle_all_Cons: "handle_all (p # segs) s = handle_all segs (settled (fst p) (snd p) s)"
  by (simp add: handle_all_def split: prod.splits)

lemma handle_all_schedule:
  assumes "outputAudioContext s" and "list_all segment segs"
  shows "calls (handle_all segs s) = calls s @ drop (length (calls s)) (calls (handle_all segs s))
       \<and> start_times (drop (length (calls s)) (calls (handle_all segs s))) = spec_schedule (nextStartTime s) (map clock_and_duration segs)
       \<and> nextStartTime (handle_all segs s) = spec_cursor (nextStartTime s) (map clock_and_duration segs)"
  using assms
proof (induction segs arbitrary: s)
  case Nil
  then show ?case by (simp add: handle_all_def)
next
  case (Cons p segs)
  let ?s1 = "settled (fst p) (snd p) s"
  from Cons.prems have seg: "segment (fst p, snd p)" and rest: "list_all segment segs"
    by simp_all
  note one = settled_segment [OF seg Cons.prems(1)]
  have ctx: "outputAudioContext ?s1" using Cons.prems(1) by simp
  note ih = Cons.IH [OF ctx rest]
  from ih have c: "calls (handle_all segs ?s1) = calls ?s1 @ drop (length (calls ?s1)) (calls (handle_all segs ?s1))" by blast
  define rest_calls where "rest_calls = drop (length (calls ?s1)) (calls (handle_all segs ?s1))"
  have c': "calls (handle_all (p # segs) s) = calls s @ SourceStart (created s) (max (nextStartTime s) (currentTime (fst p))) # rest_calls"
    using c one(2) by (simp add: handle_all_Cons rest_calls_def)
  have d: "drop (length (calls s)) (calls (handle_all (p # segs) s)) = SourceStart (created s) (max (nextStartTime s) (currentTime (fst p))) # rest_calls"
    by (simp add: c')
  show ?case
    using ih one(1) c' d
    by (cases p) (simp add: handle_all_Cons rest_calls_def clock_and_duration_def)
qed

lemma spec_schedule_length [simp]: "length (spec_schedule c segs) = length segs"
  by (induction c segs rule: spec_schedule.induct) simp_all

lemma spec_schedule_first: "segs \<noteq> [] \<Longrightarrow> spec_schedule c segs ! 0 = max c (fst (segs ! 0))"
  by (cases segs) auto

lemma spec_schedule_next:
  "Suc i < length segs \<Longrightarrow>
   spec_schedule c segs ! Suc i = max (spec_schedule c segs ! i + snd (segs ! i)) (fst (segs ! Suc i))"
proof (induction c segs arbitrary: i rule: spec_schedule.induct)
  case (1 cursor)
  then show ?case by simp
next
  case (2 cursor now d segs)
  show ?case
  proof (cases i)
    case 0
    with 2 show ?thesis by (cases segs) auto
  next
    case (Suc j)
    with 2 show ?thesis by simp
  qed
qed

lemma spec_schedule_clock: "i < length segs \<Longrightarrow> fst (segs ! i) \<le> spec_schedule c segs ! i"
proof (induction c segs arbitrary: i rule: spec_schedule.induct)
  case (1 cursor)
  then show ?case by simp
next
  case (2 cursor now d segs)
  then show ?case by (cases i) auto
qed

lemma spec_cursor_last:
  "segs \<noteq> [] \<Longrightarrow> spec_cursor c segs = last (spec_schedule c segs) + snd (last segs)"
proof (induction c segs rule: spec_schedule.induct)
  case (1 cursor)
  then show ?case by simp
next
  case (2 cursor now d segs)
  then show ?case by (cases segs) auto
qed

lemma new_calls_append [simp]: "calls s' = calls s @ cs \<Longrightarrow> new_calls s s' = cs"
  by (simp add: new_calls_def)

lemma stopAudioProcessing_fields [simp]:
  "sources (stopAudioProcessing s) = []"
  "created (stopAudioProcessing s) = created s"
  "removed (stopAudioProcessing s) = removed s @ map (\<lambda>h. (h, ForcedStop)) (sources s)"
  by (simp_all add: stopAudioProcessing_def)

lemma map_fst_forced [simp]: "map fst (map (\<lambda>h. (h, ForcedStop)) xs) = xs"
  by (induction xs) simp_all

lemma fst_image_forced [simp]: "fst ` (\<lambda>h. (h, ForcedStop)) ` A = A"
  by force


lemma startInterview_cases:
  "startInterview mic s =
     (if trim (jobRole s) = [] \<or> trim (jobDescription s) = [] then s\<lparr>error := Some fill_in_both\<rparr>
      else startInterview_resume mic (fst (startInterview_sync s)))"
  by (simp add: startInterview_def startInterview_states_def startInterview_sync_def)


lemma startInterview_state:
  "interviewState s \<noteq> In_Progress \<Longrightarrow>
   interviewState (startInterview mic s) = In_Progress \<Longrightarrow> mic = Granted"
  by (auto simp: startInterview_cases startInterview_sync_def startInterview_resume_def
      split: microphone.splits if_splits)

lemma endInterview_fields [simp]:
  "sources (endInterview s) = []"
  "created (endInterview s) = created s"
  "removed (endInterview s) = removed s @ map (\<lambda>h. (h, ForcedStop)) (sources s)"
  "outputAudioContext (endInterview s) = False"
  "interviewState (endInterview s) = Finished"
  "calls (endInterview s)
     = calls s @ map SourceStop (sources s) @ (if sessionPromise s then [SessionClose] else [])"
  by (simp_all add: endInterview_def stopAudioProcessing_def Let_def)

lemma onerror_fields [simp]:
  "sources (onerror s) = []"
  "created (onerror s) = created s"
  "removed (onerror s) = removed s @ map (\<lambda>h. (h, ForcedStop)) (sources s)"
  "outputAudioContext (onerror s) = False"
  "interviewState (onerror s) = Error_State"
  "calls (onerror s) = calls s @ map SourceStop (sources s)"
  by (simp_all add: onerror_def stopAudioProcessing_def)

lemma onclose_fields [simp]:
  "sources (onclose s) = []"
  "created (onclose s) = created s"
  "removed (onclose s) = removed s @ map (\<lambda>h. (h, ForcedStop)) (sources s)"
  "outputAudioContext (onclose s) = False"
  "interviewState (onclose s) = interviewState s"
  "calls (onclose s) = calls s @ map SourceStop (sources s)"
  by (simp_all add: onclose_def stopAudioProcessing_def)

lemma settled_interviewState [simp]: "interviewState (settled env m s) = interviewState s"
  by (auto simp: settled_def handleLiveMessage_def audio_part_cases interrupted_part_def
      transcription_part_def turnComplete_part_def Let_def split: option.splits)






lemma run_append: "run (evs @ evs') s = run evs' (run evs s)"
  by (simp add: run_def)

















subsection \<open>The codec\<close>

lemma b64_value_char: "n < 64 \<Longrightarrow> b64_value (b64_char n) = Some n"
  by (auto simp: b64_value_def b64_char_def Let_def)

lemma b64_char_not_pad: "n < 64 \<Longrightarrow> b64_char n \<noteq> CHR ''=''"
proof
  assume n: "n < 64" and "b64_char n = CHR ''=''"
  then have "b64_value (CHR ''='') = Some n" using b64_value_char [OF n] by simp
  then show False by (simp add: b64_value_def)
qed

lemma decode_group:
  assumes "b64_value w = Some p" "b64_value x = Some q" "b64_value y = Some r" "b64_value z = Some t"
    and "y \<noteq> CHR ''=''" "z \<noteq> CHR ''=''" and "decode cs = Some bs"
  shows "decode (w # x # y # z # cs) =
     Some (of_nat (p * 4 + q div 16) # of_nat (q mod 16 * 16 + r div 4) # of_nat (r mod 4 * 64 + t) # bs)"
  using assms by (cases cs) simp_all

lemma sextets:
  fixes a b c :: nat
  assumes "a < 256" "b < 256" "c < 256"
  shows "a div 4 < 64" "a mod 4 * 16 + b div 16 < 64" "b mod 16 * 4 + c div 64 < 64" "c mod 64 < 64"
    "a mod 4 * 16 < 64" "b mod 16 * 4 < 64"
  using assms by arith+

lemma regroup_a:
  fixes a b :: nat
  assumes "b < 256"
  shows "a div 4 * 4 + (a mod 4 * 16 + b div 16) div 16 = a"
proof -
  have "b div 16 < 16" using assms by arith
  then have "(a mod 4 * 16 + b div 16) div 16 = a mod 4" by simp
  then show ?thesis by simp
qed

lemma regroup_b:
  fixes a b c :: nat
  assumes "b < 256" "c < 256"
  shows "(a mod 4 * 16 + b div 16) mod 16 * 16 + (b mod 16 * 4 + c div 64) div 4 = b"
proof -
  have "b div 16 < 16" using assms by arith
  then have 1: "(a mod 4 * 16 + b div 16) mod 16 = b div 16" by simp
  have "c div 64 < 4" using assms by arith
  then have 2: "(b mod 16 * 4 + c div 64) div 4 = b mod 16" by simp
  show ?thesis unfolding 1 2 by simp
qed

lemma regroup_c:
  fixes b c :: nat
  assumes "c < 256"
  shows "(b mod 16 * 4 + c div 64) mod 4 * 64 + c mod 64 = c"
proof -
  have "c div 64 < 4" using assms by arith
  then have "(b mod 16 * 4 + c div 64) mod 4 = c div 64" by simp
  then show ?thesis by simp
qed

lemma regroup_b2:
  fixes a b :: nat
  assumes "b < 256"
  shows "(a mod 4 * 16 + b div 16) mod 16 * 16 + (b mod 16 * 4) div 4 = b"
  using regroup_b [OF assms, of 0 a] by simp

lemma regroup_a1: "a div 4 * 4 + (a mod 4 * 16) div 16 = (a :: nat)"
  using regroup_a [of 0 a] by simp

lemma sextets2:
  fixes a b :: nat
  assumes "a < 256" "b < 256"
  shows "a mod 4 * 16 < 64" "b mod 16 * 4 < 64"
  using assms by arith+

lemma unat_byte: "unat (a :: 8 word) < 256"
  by (rule order_less_le_trans [OF unsigned_less]) simp

lemma sint_in_range:
  "- 32768 \<le> k \<Longrightarrow> k \<le> 32767 \<Longrightarrow> sint (word_of_int k :: 16 word) = k"
  by (simp add: sint_sbintrunc' signed_take_bit_int_eq_self)

lemma sint_wraps: "sint (word_of_int k :: 16 word) = (k + 32768) mod 65536 - 32768"
  by (simp add: sint_sbintrunc' signed_take_bit_eq_take_bit_shift take_bit_eq_mod)

lemma bytes_view: "or (ucast (ucast w :: 8 word)) (push_bit 8 (ucast (ucast (drop_bit 8 w) :: 8 word))) = (w :: 16 word)"
  by (rule bit_word_eqI) (auto simp: bit_simps)


lemma decode_encode: "decode (encode bs) = Some bs"
proof (induction bs rule: encode.induct)
  case (1 a b c bs)
  note s = sextets [OF unat_byte [of a] unat_byte [of b] unat_byte [of c]]
  note g = regroup_a [OF unat_byte [of b], of "unat a"]
    regroup_b [OF unat_byte [of b] unat_byte [of c], of "unat a"]
    regroup_c [OF unat_byte [of c], of "unat b"]
  show ?case
    unfolding encode.simps
    by (subst decode_group [OF b64_value_char [OF s(1)] b64_value_char [OF s(2)]
          b64_value_char [OF s(3)] b64_value_char [OF s(4)]
          b64_char_not_pad [OF s(3)] b64_char_not_pad [OF s(4)] "1.IH"])
      (simp only: g, simp)
next
  case (2 a b)
  note s = sextets(1,2) [OF unat_byte [of a] unat_byte [of b] unat_byte [of b]]
    sextets2(2) [OF unat_byte [of a] unat_byte [of b]]
  note g = regroup_a [OF unat_byte [of b], of "unat a"] regroup_b2 [OF unat_byte [of b], of "unat a"]
  show ?case
    using b64_char_not_pad [OF s(3)]
    by (simp only: encode.simps decode.simps b64_value_char [OF s(1)] b64_value_char [OF s(2)]
          b64_value_char [OF s(3)] g prod.case option.case, simp)
next
  case (3 a)
  note s = sextets(1) [OF unat_byte [of a] unat_byte [of a] unat_byte [of a]]
    sextets2(1) [OF unat_byte [of a] unat_byte [of a]]
  show ?case
    by (simp only: encode.simps decode.simps b64_value_char [OF s(1)] b64_value_char [OF s(2)]
          regroup_a1 prod.case option.case, simp)
next
  case 4
  show ?case by simp
qed

lemma bytes_int16_bytes: "bytes_int16 (int16_bytes ws) = ws"
proof (induction ws)
  case Nil
  show ?case by simp
next
  case (Cons w ws)
  with bytes_view [of w] show ?case by simp
qed

lemma truncate_real_near: "\<bar>real_of_int (truncate_real x) - x\<bar> < 1"
  unfolding truncate_real_def by (auto; linarith)

lemma truncate_real_bound: "\<bar>x\<bar> \<le> real_of_int n \<Longrightarrow> \<bar>truncate_real x\<bar> \<le> n"
  unfolding truncate_real_def by (auto; linarith)


lemma int16_sample_exact:
  assumes "- 1 \<le> x" and "x \<le> 1"
  shows "sint (int16_sample (Finite x)) = truncate_real (x * 32767)"
proof -
  have "\<bar>x * 32767\<bar> \<le> real_of_int 32767" using assms by (simp add: abs_le_iff)
  from truncate_real_bound [OF this] show ?thesis
    by (simp add: int16_sample_def sint_in_range)
qed

subsection \<open>The chat component\<close>

lemma length_map_last [simp]: "length (map_last f prev) = length prev"
  by (simp add: map_last_def)

lemma nth_map_last:
  "i < length prev \<Longrightarrow>
   map_last f prev ! i = (if Suc i = length prev then f (prev ! i) else prev ! i)"
  by (auto simp: map_last_def nth_enumerate_eq)

lemma map_last_snoc: "map_last f (xs @ [x]) = xs @ [f x]"
  by (rule nth_equalityI) (auto simp: nth_map_last nth_append)

lemma map_last_snoc2: "map_last f (xs @ [x, y]) = xs @ [x, f y]"
  using map_last_snoc [of f "xs @ [x]" y] by simp

lemma outcome_flush [simp]: "outcome env (flush env0 h) = outcome env0 h"
  by (simp add: outcome_def flush_def)

lemma rendered_flush: "rendered (flush env h) = outcome env h"
  by (simp add: outcome_def flush_def)

lemma outcome_dispatch:
  "outcome env (dispatch quiet env0 u h) =
     (if quiet \<and> pending h = [] then u env0 (rendered h) else u env (outcome env h))"
  by (simp add: outcome_def dispatch_def)

lemma outcome_idle: "pending h = [] \<Longrightarrow> outcome env h = rendered h"
  by (simp add: outcome_def)

lemma shown_outcome: "shown s = outcome (closure s) (messages s)"
  by (simp add: shown_def render_chat_def rendered_flush closure_def)

lemma appended_dispatch:
  assumes "appended old um s"
    and u: "\<And>env prev. u env prev = map_last (f env) prev"
    and f: "\<And>env msg. sender (f env msg) = sender msg"
    and s': "messages s' = dispatch quiet env0 u (messages s)"
  shows "appended old um s'"
  unfolding appended_def
proof
  fix env
  from assms(1) obtain b where b: "outcome env (messages s) = old @ [um, b]" "sender b = BotSender"
    unfolding appended_def by blast
  from assms(1) obtain b0 where b0: "outcome env0 (messages s) = old @ [um, b0]" "sender b0 = BotSender"
    unfolding appended_def by blast
  show "\<exists>b. outcome env (messages s') = old @ [um, b] \<and> sender b = BotSender"
  proof (cases "quiet \<and> pending (messages s) = []")
    case True
    then have "rendered (messages s) = old @ [um, b0]" using b0 by (simp add: outcome_idle)
    with True have "outcome env (messages s') = old @ [um, f env0 b0]"
      by (simp add: s' outcome_dispatch u map_last_snoc2)
    then show ?thesis using b0 f by auto
  next
    case False
    then have "outcome env (messages s') = old @ [um, f env b]"
      using b by (auto simp: s' outcome_dispatch u map_last_snoc2)
    then show ?thesis using b f by auto
  qed
qed

lemma appended_step: "appended old um s \<Longrightarrow> appended old um (stream_step s ev)"
proof (cases ev)
  case Opened
  assume "appended old um s"
  then show ?thesis using Opened by (simp add: appended_def stream_opened_def)
next
  case (Chunk quiet c)
  assume a: "appended old um s"
  let ?s1 = "s\<lparr>fullText := fullText s @ chunk_text c,
               allSources := allSources s @ (case groundingChunks c of
                     Some cs \<Rightarrow> new_sources (allSources s) cs | None \<Rightarrow> [])\<rparr>"
  from a have a1: "appended old um ?s1" by (simp add: appended_def)
  have "appended old um (?s1\<lparr>messages := dispatch quiet (closure ?s1) show_stream (messages ?s1)\<rparr>)"
    by (rule appended_dispatch [OF a1, where f = "\<lambda>env msg. msg\<lparr>message_text := fst env, message_sources := Some (snd env)\<rparr>"])
       (simp_all add: show_stream_def)
  then show ?thesis using Chunk by (simp add: stream_chunk_def Let_def)
next
  case (Failed quiet)
  assume a: "appended old um s"
  have "appended old um (s\<lparr>messages := dispatch quiet (closure s) show_error (messages s)\<rparr>)"
    by (rule appended_dispatch [OF a, where f = "\<lambda>env msg. msg\<lparr>message_text := chat_error\<rparr>"])
       (simp_all add: show_error_def)
  then show ?thesis using Failed by (simp add: stream_failed_def appended_def)
next
  case Completed
  assume "appended old um s"
  then show ?thesis using Completed by (simp add: appended_def stream_finished_def)
next
  case Rendered
  assume "appended old um s"
  then show ?thesis using Rendered by (auto simp: appended_def render_chat_def closure_def)
qed

lemma appended_run: "appended old um s \<Longrightarrow> appended old um (stream_run evs s)"
  by (induction evs rule: rev_induct) (simp_all add: stream_run_def appended_step)

lemma sendMessage_outcome:
  assumes "trim (input s) \<noteq> []" "chat s" "pending (messages s) = []"
  shows "outcome env (messages (sendMessage quiet s)) = rendered (messages s) @ [userMessage s, botMessage]"
  using assms by (simp add: sendMessage_def Let_def dispatch_def outcome_def)

lemma sendMessage_appended:
  assumes "trim (input s) \<noteq> []" "chat s" "pending (messages s) = []"
  shows "appended (rendered (messages s)) (userMessage s) (sendMessage quiet s)"
  unfolding appended_def using sendMessage_outcome [OF assms] by (simp add: botMessage_def)

lemma streamed_step:
  assumes "streamed old um s" and "appended old um s" and "streaming ev"
  shows "streamed old um (stream_step s ev)"
proof (cases ev)
  case (Chunk quiet c)
  let ?s1 = "s\<lparr>fullText := fullText s @ chunk_text c,
               allSources := allSources s @ (case groundingChunks c of
                     Some cs \<Rightarrow> new_sources (allSources s) cs | None \<Rightarrow> [])\<rparr>"
  from assms(2) obtain b where b: "outcome (closure ?s1) (messages s) = old @ [um, b]" "sender b = BotSender"
    unfolding appended_def by blast
  from assms(2) obtain b0 where b0: "rendered (messages s) = old @ [um, b0]" "sender b0 = BotSender"
    if "pending (messages s) = []"
    unfolding appended_def by (metis outcome_idle)
  have "outcome (closure ?s1) (dispatch quiet (closure ?s1) show_stream (messages s))
      = old @ [um, \<lparr>sender = BotSender, message_text = fullText ?s1, message_sources = Some (allSources ?s1)\<rparr>]"
  proof (cases "quiet \<and> pending (messages s) = []")
    case True
    with b0 show ?thesis
      by (simp add: outcome_dispatch show_stream_def map_last_snoc2 closure_def)
  next
    case False
    with b show ?thesis
      by (auto simp: outcome_dispatch show_stream_def map_last_snoc2 closure_def)
  qed
  then show ?thesis using Chunk
    by (simp add: streamed_def stream_chunk_def Let_def closure_def)
next
  case Rendered
  then show ?thesis using assms(1) by (simp add: streamed_def render_chat_def closure_def)
qed (use assms(3) in simp_all)

subsection \<open>The example inputs\<close>

lemma trim_examples:
  "trim (utf16 ''Dev'') = utf16 ''Dev''" "trim (utf16 ''Go'') = utf16 ''Go''"
  "trim (utf16 '' '') = []" "trim (utf16 ''  '') = []"
  "trim (utf16 ''Hi'') = utf16 ''Hi''" "trim (utf16 ''Hello.'') = utf16 ''Hello.''"
  "trim [] = []"
  by (simp_all add: trim_def utf16_def isWhiteSpace_def)

lemma utf16_examples:
  "utf16 ''Dev'' \<noteq> []" "utf16 ''Go'' \<noteq> []" "utf16 ''Hi'' \<noteq> []" "utf16 ''Hello.'' \<noteq> []"
  "utf16 ''AAAA'' \<noteq> []"
  by (simp_all add: utf16_def)

lemma example_messages:
  "has_audio audio_chunk" "\<not> interrupted audio_chunk"
  "\<not> has_audio interruption_only" "interrupted interruption_only"
  "has_audio (audio_chunk\<lparr>interrupted := True\<rparr>)" "interrupted (audio_chunk\<lparr>interrupted := True\<rparr>)"
  "\<not> has_audio turn_complete_only" "\<not> interrupted turn_complete_only"
  by (simp_all add: has_audio_def audio_chunk_def interruption_only_def turn_complete_only_def utf16_def)

lemma at_time_fields [simp]:
  "currentTime (at_time now d quiet) = now" "decoded (at_time now d quiet) = Some d"
  "idle (at_time now d quiet) = quiet" "duration (at_time now d quiet) = d"
  by (simp_all add: at_time_def duration_def)

section \<open>The playback scheduler\<close>

text \<open>
  C1. Decoded audio segments handled one after the other, with no interruption among them
  and an output context open: the start times passed to \<open>source.start\<close> are those of the
  specification's rule; each segment is started at the later of the cursor and the clock
  reading taken for it, and the cursor then stands at that start plus the segment's
  duration.
  So no start lies before its clock reading, a segment never starts before the previous
  one ends, and it starts exactly at that end whenever its clock reading is not later.
\<close>

theorem gapless_schedule:
  assumes "outputAudioContext s" and "list_all segment segs"
  shows "scheduled_starts segs s = spec_schedule (nextStartTime s) (map clock_and_duration segs)
    \<and> length (scheduled_starts segs s) = length segs
    \<and> (segs \<noteq> [] \<longrightarrow>
         scheduled_starts segs s ! 0 = max (nextStartTime s) (currentTime (fst (segs ! 0))))
    \<and> (\<forall>i. Suc i < length segs \<longrightarrow>
         scheduled_starts segs s ! Suc i
           = max (scheduled_starts segs s ! i + duration (fst (segs ! i)))
                 (currentTime (fst (segs ! Suc i)))
         \<and> (currentTime (fst (segs ! Suc i)) \<le> scheduled_starts segs s ! i + duration (fst (segs ! i))
              \<longrightarrow> scheduled_starts segs s ! Suc i
                    = scheduled_starts segs s ! i + duration (fst (segs ! i)))
         \<and> scheduled_starts segs s ! i + duration (fst (segs ! i)) \<le> scheduled_starts segs s ! Suc i)
    \<and> (\<forall>i < length segs. currentTime (fst (segs ! i)) \<le> scheduled_starts segs s ! i)
    \<and> nextStartTime (handle_all segs s)
        = (if segs = [] then nextStartTime s
           else last (scheduled_starts segs s) + duration (fst (last segs)))"
proof -
  let ?cd = "map clock_and_duration segs"
  let ?ts = "spec_schedule (nextStartTime s) ?cd"
  from handle_all_schedule [OF assms]
  have ts: "scheduled_starts segs s = ?ts"
    and cur: "nextStartTime (handle_all segs s) = spec_cursor (nextStartTime s) ?cd"
    by (simp_all add: scheduled_starts_def new_calls_def)
  have len: "length ?ts = length segs" by simp
  have first: "?ts ! 0 = max (nextStartTime s) (currentTime (fst (segs ! 0)))" if "segs \<noteq> []"
    using that spec_schedule_first [of ?cd "nextStartTime s"]
    by (simp add: clock_and_duration_def nth_map [of 0 segs] length_greater_0_conv [symmetric] del: length_greater_0_conv)
  have nxt: "?ts ! Suc i = max (?ts ! i + duration (fst (segs ! i))) (currentTime (fst (segs ! Suc i)))"
    if "Suc i < length segs" for i
    using that spec_schedule_next [of i ?cd "nextStartTime s"]
    by (simp add: clock_and_duration_def)
  have clk: "currentTime (fst (segs ! i)) \<le> ?ts ! i" if "i < length segs" for i
    using that spec_schedule_clock [of i ?cd "nextStartTime s"]
    by (simp add: clock_and_duration_def)
  have fin: "spec_cursor (nextStartTime s) ?cd = last ?ts + duration (fst (last segs))" if "segs \<noteq> []"
    using that spec_cursor_last [of ?cd "nextStartTime s"]
    by (simp add: clock_and_duration_def last_map)
  show ?thesis
    unfolding ts cur
  proof (intro conjI allI impI)
    show "?ts = ?ts" by (rule refl)
    show "length ?ts = length segs" by (rule len)
    show "?ts ! 0 = max (nextStartTime s) (currentTime (fst (segs ! 0)))" if "segs \<noteq> []"
      using that by (rule first)
    show "?ts ! Suc i = max (?ts ! i + duration (fst (segs ! i))) (currentTime (fst (segs ! Suc i)))"
      if "Suc i < length segs" for i using that by (rule nxt)
    show "?ts ! Suc i = ?ts ! i + duration (fst (segs ! i))"
      if "Suc i < length segs" "currentTime (fst (segs ! Suc i)) \<le> ?ts ! i + duration (fst (segs ! i))" for i
      using nxt [OF that(1)] that(2) by simp
    show "?ts ! i + duration (fst (segs ! i)) \<le> ?ts ! Suc i" if "Suc i < length segs" for i
      using nxt [OF that] by simp
    show "currentTime (fst (segs ! i)) \<le> ?ts ! i" if "i < length segs" for i
      using that by (rule clk)
    show "spec_cursor (nextStartTime s) ?cd
        = (if segs = [] then nextStartTime s else last ?ts + duration (fst (last segs)))"
      using fin by (cases "segs = []") simp_all
  qed
qed

lemma playing_context: "outputAudioContext (onopen mounted)"
  by (simp add: onopen_def mounted_def)

lemma three_segments_are_segments: "list_all segment three_segments"
  by (simp add: three_segments_def segment_def example_messages)

theorem gapless_schedule_witness:
  "outputAudioContext (onopen mounted) \<and> list_all segment three_segments
   \<and> length (scheduled_starts three_segments (onopen mounted)) = 3
   \<and> scheduled_starts three_segments (onopen mounted) ! 0 = 1 / 2
   \<and> scheduled_starts three_segments (onopen mounted) ! 1 = 5 / 2
   \<and> scheduled_starts three_segments (onopen mounted) ! 2 = 10
   \<and> nextStartTime (handle_all three_segments (onopen mounted)) = 11"
proof -
  note g = gapless_schedule [OF playing_context three_segments_are_segments, THEN conjunct2]
  let ?ts = "scheduled_starts three_segments (onopen mounted)"
  have seg: "three_segments ! 0 = (at_time (1/2) 2 False, audio_chunk)"
    "three_segments ! 1 = (at_time 1 1 False, audio_chunk)"
    "three_segments ! 2 = (at_time 10 1 False, audio_chunk)"
    "three_segments ! Suc 0 = (at_time 1 1 False, audio_chunk)"
    "three_segments ! Suc (Suc 0) = (at_time 10 1 False, audio_chunk)"
    "length three_segments = 3" "three_segments \<noteq> []"
    "last three_segments = (at_time 10 1 False, audio_chunk)"
    by (simp_all add: three_segments_def)
  from g have len: "length ?ts = 3" by (simp add: seg)
  from g have t0: "?ts ! 0 = 1 / 2"
    by (simp add: seg onopen_def mounted_def)
  from g have "Suc 0 < length three_segments \<longrightarrow>
      ?ts ! Suc 0 = max (?ts ! 0 + duration (fst (three_segments ! 0))) (currentTime (fst (three_segments ! Suc 0)))"
    by blast
  then have t1: "?ts ! 1 = 5 / 2" using t0 by (simp add: seg)
  from g have "Suc 1 < length three_segments \<longrightarrow>
      ?ts ! Suc 1 = max (?ts ! 1 + duration (fst (three_segments ! 1))) (currentTime (fst (three_segments ! Suc 1)))"
    by blast
  then have t2: "?ts ! 2 = 10" using t1 by (simp add: seg numeral_2_eq_2)
  from len have "?ts \<noteq> []" by auto
  then have "last ?ts = ?ts ! 2" using len by (simp add: last_conv_nth)
  with g t2 have fin: "nextStartTime (handle_all three_segments (onopen mounted)) = 11"
    by (simp add: seg)
  show ?thesis using playing_context three_segments_are_segments len t0 t1 t2 fin by simp
qed

text \<open>
  C2. The interruption block of the handler, in any state: \<open>stop\<close> is called on every
  node that was in the set, the set is left empty and the cursor is 0. The handler runs
  this block for every message with the interrupted flag, unless the message carries a
  chunk that fails to decode; then the state it leaves has an empty set and cursor 0, and
  the next decoded audio segment handled after it (the clock is never negative) starts at
  its clock reading, whatever the cursor was before the interruption.
\<close>

theorem interruption_resets:
  assumes "interrupted m"
  shows "(\<forall>h \<in> set (sources s). SourceStop h \<in> set (new_calls s (interrupted_part m s)))
       \<and> sources (interrupted_part m s) = []
       \<and> nextStartTime (interrupted_part m s) = 0
       \<and> (decodes env m s \<longrightarrow>
            handleLiveMessage env m s = Handled (settled env m s)
          \<and> (\<forall>h \<in> set (sources s). SourceStop h \<in> set (new_calls s (settled env m s)))
          \<and> sources (settled env m s) = []
          \<and> nextStartTime (settled env m s) = 0
          \<and> (\<forall>env2 m2. has_audio m2 \<and> decoded env2 \<noteq> None \<and> outputAudioContext s
                         \<and> 0 \<le> currentTime env2 \<longrightarrow>
                 take 1 (new_calls (settled env m s) (settled env2 m2 (settled env m s)))
                   = [SourceStart (created (settled env m s)) (currentTime env2)]))"
proof -
  let ?s' = "settled env m s"
  have block: "(\<forall>h \<in> set (sources s). SourceStop h \<in> set (new_calls s (interrupted_part m s)))
       \<and> sources (interrupted_part m s) = [] \<and> nextStartTime (interrupted_part m s) = 0"
    using assms by (simp add: interrupted_part_def new_calls_def)
  have whole: "handleLiveMessage env m s = Handled ?s'
          \<and> (\<forall>h \<in> set (sources s). SourceStop h \<in> set (new_calls s ?s'))
          \<and> sources ?s' = [] \<and> nextStartTime ?s' = 0
          \<and> (\<forall>env2 m2. has_audio m2 \<and> decoded env2 \<noteq> None \<and> outputAudioContext s
                         \<and> 0 \<le> currentTime env2 \<longrightarrow>
                 take 1 (new_calls ?s' (settled env2 m2 ?s'))
                   = [SourceStart (created ?s') (currentTime env2)])"
    if dc: "decodes env m s"
  proof -
    have h: "handleLiveMessage env m s = Handled ?s'"
      using dc by (simp add: handleLiveMessage_settles)
    have a: "sources ?s' = []" and b: "nextStartTime ?s' = 0"
      using assms dc by (simp_all add: settled_sources settled_nextStartTime)
    have c: "\<forall>h \<in> set (sources s). SourceStop h \<in> set (new_calls s ?s')"
      using assms dc by (auto simp: new_calls_def settled_calls set_add_def)
    have d: "take 1 (new_calls ?s' (settled env2 m2 ?s')) = [SourceStart (created ?s') (currentTime env2)]"
      if "has_audio m2" "decoded env2 \<noteq> None" "outputAudioContext s" "0 \<le> currentTime env2" for env2 m2
      using that b by (simp add: new_calls_def settled_calls [of env2 m2 ?s'])
    from h a b c d show ?thesis by blast
  qed
  from block whole show ?thesis by blast
qed

lemma playing_fields:
  "sources playing = [0, 1]" "created playing = 2" "nextStartTime playing = 5"
  "outputAudioContext playing" "removed playing = []"
  by (simp_all add: playing_def handle_all_def settled_sources settled_created settled_removed
      settled_nextStartTime example_messages onopen_def mounted_def set_add_def)

theorem interruption_resets_witness:
  "interrupted interruption_only \<and> decodes (at_time 3 0 False) interruption_only playing
   \<and> 0 \<in> set (sources playing) \<and> nextStartTime playing = 5
   \<and> SourceStop 0 \<in> set (new_calls playing (settled (at_time 3 0 False) interruption_only playing))
   \<and> sources (settled (at_time 3 0 False) interruption_only playing) = []
   \<and> nextStartTime (settled (at_time 3 0 False) interruption_only playing) = 0
   \<and> has_audio audio_chunk \<and> decoded (at_time 4 1 False) \<noteq> None \<and> outputAudioContext playing
   \<and> 0 \<le> currentTime (at_time 4 1 False)
   \<and> take 1 (new_calls (settled (at_time 3 0 False) interruption_only playing)
               (settled (at_time 4 1 False) audio_chunk
                  (settled (at_time 3 0 False) interruption_only playing)))
        = [SourceStart 2 4]"
proof -
  have i: "interrupted interruption_only" by (rule example_messages)
  have dc: "decodes (at_time 3 0 False) interruption_only playing"
    by (simp add: decodes_def example_messages)
  have a: "has_audio audio_chunk" "decoded (at_time 4 1 False) \<noteq> None" by (simp_all add: example_messages)
  have t: "0 \<le> currentTime (at_time 4 1 False)" "currentTime (at_time 4 1 False) = 4"
    by simp_all
  have c: "created (settled (at_time 3 0 False) interruption_only playing) = 2"
    by (simp add: settled_created example_messages playing_fields)
  note r = interruption_resets [OF i, of playing "at_time 3 0 False", THEN conjunct2, THEN conjunct2,
      THEN conjunct2, THEN mp, OF dc]
  from r have "SourceStop 0 \<in> set (new_calls playing (settled (at_time 3 0 False) interruption_only playing))"
    by (simp add: playing_fields)
  moreover from r a t(1) playing_fields(4)
  have "take 1 (new_calls (settled (at_time 3 0 False) interruption_only playing)
               (settled (at_time 4 1 False) audio_chunk
                  (settled (at_time 3 0 False) interruption_only playing)))
        = [SourceStart (created (settled (at_time 3 0 False) interruption_only playing))
             (currentTime (at_time 4 1 False))]"
    by blast
  then have "take 1 (new_calls (settled (at_time 3 0 False) interruption_only playing)
               (settled (at_time 4 1 False) audio_chunk
                  (settled (at_time 3 0 False) interruption_only playing)))
        = [SourceStart 2 4]"
    by (simp only: c t(2))
  ultimately show ?thesis using r i dc a t(1) by (simp add: playing_fields)
qed

text \<open>
  C9. A message that carries an audio chunk (one that decodes) and the interrupted flag:
  the handler runs to its end, and afterwards the set is empty and the cursor is 0. With
  an output context open, the chunk is started first and the stops follow, its own among
  them, so the node just scheduled is removed by the forced stop.
\<close>

theorem chunk_then_interruption:
  assumes "has_audio m" and "interrupted m" and "decodes env m s"
  shows "handleLiveMessage env m s = Handled (settled env m s)
       \<and> sources (settled env m s) = []
       \<and> nextStartTime (settled env m s) = 0
       \<and> (outputAudioContext s \<longrightarrow>
            new_calls s (settled env m s)
              = SourceStart (created s) (max (nextStartTime s) (currentTime env))
                # map SourceStop (set_add (created s) (sources s))
          \<and> SourceStop (created s) \<in> set (new_calls s (settled env m s))
          \<and> (created s, ForcedStop) \<in> set (removed (settled env m s)))"
  using assms
  by (auto simp: handleLiveMessage_settles settled_sources settled_nextStartTime settled_calls
      settled_removed new_calls_def set_add_def decodes_def)

theorem chunk_then_interruption_witness:
  "has_audio (audio_chunk\<lparr>interrupted := True\<rparr>) \<and> interrupted (audio_chunk\<lparr>interrupted := True\<rparr>)
   \<and> decodes (at_time 6 1 False) (audio_chunk\<lparr>interrupted := True\<rparr>) playing
   \<and> outputAudioContext playing
   \<and> sources (settled (at_time 6 1 False) (audio_chunk\<lparr>interrupted := True\<rparr>) playing) = []
   \<and> nextStartTime (settled (at_time 6 1 False) (audio_chunk\<lparr>interrupted := True\<rparr>) playing) = 0
   \<and> new_calls playing (settled (at_time 6 1 False) (audio_chunk\<lparr>interrupted := True\<rparr>) playing)
       = [SourceStart 2 6, SourceStop 0, SourceStop 1, SourceStop 2]"
proof -
  have a: "has_audio (audio_chunk\<lparr>interrupted := True\<rparr>)" by (rule example_messages)
  have i: "interrupted (audio_chunk\<lparr>interrupted := True\<rparr>)" by simp
  have d: "decodes (at_time 6 1 False) (audio_chunk\<lparr>interrupted := True\<rparr>) playing"
    by (simp add: decodes_def)
  from chunk_then_interruption [OF a i d] a i d
  show ?thesis by (simp add: playing_fields set_add_def)
qed

text \<open>
  When the chunk does not decode, the handler stops at the \<open>await\<close>: the cursor has moved
  to the clock if that is later, nothing is scheduled, and an interruption carried by the
  same message is not processed.
\<close>

lemma undecodable_chunk:
  assumes "has_audio m" and "outputAudioContext s" and "decoded env = None"
  shows "handleLiveMessage env m s = DecodeError (settled env m s)"
    and "sources (settled env m s) = sources s"
    and "calls (settled env m s) = calls s"
    and "nextStartTime (settled env m s) = max (nextStartTime s) (currentTime env)"
  using assms
  by (simp_all add: handleLiveMessage_settles settled_sources settled_calls settled_nextStartTime
      decodes_def duration_def)





section \<open>Starting an interview\<close>

text \<open>
  C7. From the setup state, \<open>startInterview\<close> passes through \<open>in_progress\<close> exactly when
  both the role and the description are non-empty after trimming. If either trims to
  empty, the only thing that changes is the error message: the state stays \<open>setup\<close>, no
  call is made (no microphone request, no connection) and no session is stored.
\<close>

lemma startInterview_states_blocked:
  "trim (jobRole s) = [] \<or> trim (jobDescription s) = [] \<Longrightarrow>
   startInterview_states mic s = [s\<lparr>error := Some fill_in_both\<rparr>]"
  by (simp add: startInterview_states_def startInterview_sync_def)

lemma startInterview_states_passed:
  assumes "trim (jobRole s) \<noteq> []" and "trim (jobDescription s) \<noteq> []"
  shows "startInterview_states mic s
           = [fst (startInterview_sync s), startInterview_resume mic (fst (startInterview_sync s))]"
  using assms by (simp add: startInterview_states_def startInterview_sync_def)

lemma startInterview_sync_passed:
  assumes "trim (jobRole s) \<noteq> []" and "trim (jobDescription s) \<noteq> []"
  shows "interviewState (fst (startInterview_sync s)) = In_Progress"
    and "calls (fst (startInterview_sync s)) = calls s @ [GetUserMedia]"
    and "sessionPromise (fst (startInterview_sync s)) = sessionPromise s"
  using assms by (simp_all add: startInterview_states_def startInterview_sync_def)

theorem startInterview_guard:
  assumes "interviewState s = Setup"
  shows "(In_Progress \<in> set (map interviewState (startInterview_states mic s))
            \<longleftrightarrow> trim (jobRole s) \<noteq> [] \<and> trim (jobDescription s) \<noteq> [])
       \<and> (trim (jobRole s) = [] \<or> trim (jobDescription s) = [] \<longrightarrow>
            startInterview_states mic s = [s\<lparr>error := Some fill_in_both\<rparr>]
          \<and> interviewState (startInterview mic s) = Setup
          \<and> error (startInterview mic s) = Some fill_in_both
          \<and> calls (startInterview mic s) = calls s
          \<and> sessionPromise (startInterview mic s) = sessionPromise s)"
proof (cases "trim (jobRole s) = [] \<or> trim (jobDescription s) = []")
  case True
  from startInterview_states_blocked [OF True, of mic] assms True show ?thesis
    by (auto simp: startInterview_def)
next
  case False
  then have "trim (jobRole s) \<noteq> []" "trim (jobDescription s) \<noteq> []" by simp_all
  from startInterview_states_passed [OF this, of mic] startInterview_sync_passed(1) [OF this] False
  show ?thesis by auto
qed

theorem startInterview_guard_witness:
  "interviewState (setup_with ''Dev'' '' '') = Setup
   \<and> trim (jobDescription (setup_with ''Dev'' '' '')) = []
   \<and> In_Progress \<notin> set (map interviewState (startInterview_states Granted (setup_with ''Dev'' '' '')))
   \<and> interviewState (startInterview Granted (setup_with ''Dev'' '' '')) = Setup
   \<and> error (startInterview Granted (setup_with ''Dev'' '' '')) = Some fill_in_both
   \<and> calls (startInterview Granted (setup_with ''Dev'' '' '')) = []
   \<and> interviewState (setup_with ''Dev'' ''Go'') = Setup
   \<and> In_Progress \<in> set (map interviewState (startInterview_states Granted (setup_with ''Dev'' ''Go'')))"
proof -
  have s: "interviewState (setup_with ''Dev'' '' '') = Setup" "interviewState (setup_with ''Dev'' ''Go'') = Setup"
    by (simp_all add: setup_with_def mounted_def)
  have f: "jobRole (setup_with ''Dev'' '' '') = utf16 ''Dev''" "jobDescription (setup_with ''Dev'' '' '') = utf16 '' ''"
    "jobRole (setup_with ''Dev'' ''Go'') = utf16 ''Dev''" "jobDescription (setup_with ''Dev'' ''Go'') = utf16 ''Go''"
    "calls (setup_with ''Dev'' '' '') = []"
    by (simp_all add: setup_with_def mounted_def)
  from startInterview_guard [OF s(1), of Granted] startInterview_guard [OF s(2), of Granted]
  show ?thesis using s by (simp add: f trim_examples utf16_examples)
qed

text \<open>
  C6 as stated fails: the component is set to \<open>in_progress\<close> before the microphone is
  requested, so a denial finds it there.
\<close>

theorem denied_passes_in_progress:
  "In_Progress \<in> set (map interviewState (startInterview_states Denied (setup_with ''Dev'' ''Go'')))"
  by (simp add: startInterview_states_def startInterview_sync_def startInterview_resume_def
      setup_with_def mounted_def trim_examples utf16_examples)

text \<open>
  C6, amended. With role and description filled in, a denied microphone request finds the
  component in \<open>in_progress\<close> and leaves it in the error state with the microphone
  message stored; the only call made is the microphone request, so no connection is
  attempted and no session is stored.
\<close>

theorem denied_ends_in_error:
  assumes "trim (jobRole s) \<noteq> []" and "trim (jobDescription s) \<noteq> []"
  shows "map interviewState (startInterview_states Denied s) = [In_Progress, Error_State]
       \<and> interviewState (startInterview Denied s) = Error_State
       \<and> error (startInterview Denied s) = Some no_microphone
       \<and> calls (startInterview Denied s) = calls s @ [GetUserMedia]
       \<and> sessionPromise (startInterview Denied s) = sessionPromise s"
  using startInterview_states_passed [OF assms, of Denied] startInterview_sync_passed [OF assms]
  by (simp add: startInterview_def startInterview_resume_def)

theorem denied_ends_in_error_witness:
  "trim (jobRole (setup_with ''Dev'' ''Go'')) \<noteq> [] \<and> trim (jobDescription (setup_with ''Dev'' ''Go'')) \<noteq> []
   \<and> interviewState (startInterview Denied (setup_with ''Dev'' ''Go'')) = Error_State
   \<and> error (startInterview Denied (setup_with ''Dev'' ''Go'')) = Some no_microphone
   \<and> calls (startInterview Denied (setup_with ''Dev'' ''Go'')) = [GetUserMedia]
   \<and> \<not> sessionPromise (startInterview Denied (setup_with ''Dev'' ''Go''))"
proof -
  have f: "jobRole (setup_with ''Dev'' ''Go'') = utf16 ''Dev''" "jobDescription (setup_with ''Dev'' ''Go'') = utf16 ''Go''"
    "calls (setup_with ''Dev'' ''Go'') = []" "\<not> sessionPromise (setup_with ''Dev'' ''Go'')"
    by (simp_all add: setup_with_def mounted_def)
  have ne: "trim (jobRole (setup_with ''Dev'' ''Go'')) \<noteq> []" "trim (jobDescription (setup_with ''Dev'' ''Go'')) \<noteq> []"
    by (simp_all add: f trim_examples utf16_examples)
  from denied_ends_in_error [OF ne] ne f show ?thesis by simp
qed

section \<open>Completing a turn\<close>

lemma turnComplete_rendered:
  assumes "turnComplete m" and "pending (transcripts s) = []"
  shows "rendered (transcripts (render (turnComplete_part env m s)))
     = rendered (transcripts s)
       @ (if trim (currentInputTranscription s) \<noteq> []
          then [\<lparr>speaker = User,
                  entry_text = (if idle env then trim (currentInputTranscription s) else [])\<rparr>]
          else [])
       @ (if trim (currentOutputTranscription s) \<noteq> []
          then [\<lparr>speaker = Model,
                  entry_text = (if idle env \<and> trim (currentInputTranscription s) = []
                                then trim (currentOutputTranscription s) else [])\<rparr>]
          else [])"
  using assms
  by (simp add: render_def turnComplete_part_def Let_def dispatch_def flush_def refs_def
      append_user_def append_model_def trim_examples)

lemma turnComplete_clears:
  "turnComplete m \<Longrightarrow>
   currentInputTranscription (turnComplete_part env m s) = []
   \<and> currentOutputTranscription (turnComplete_part env m s) = []
   \<and> \<not> isTalking (turnComplete_part env m s)"
  by (simp add: turnComplete_part_def Let_def)

text \<open>
  C3 at the input where the code departs from it: the accumulators hold "Hi" and
  "Hello.", and a message with \<open>turnComplete\<close> is handled. The entry for the model is
  appended with an empty text, whether or not React ran the first updater at once: the
  updater reads the accumulator when it runs, and by then the handler has cleared it.
\<close>

theorem turn_complete_model_text_lost:
  "rendered (transcripts (render (settled (at_time 0 0 True) turn_complete_only
                                    (turn_pending ''Hi'' ''Hello.''))))
     = [\<lparr>speaker = User, entry_text = utf16 ''Hi''\<rparr>, \<lparr>speaker = Model, entry_text = []\<rparr>]
   \<and> rendered (transcripts (render (settled (at_time 0 0 False) turn_complete_only
                                      (turn_pending ''Hi'' ''Hello.''))))
     = [\<lparr>speaker = User, entry_text = []\<rparr>, \<lparr>speaker = Model, entry_text = []\<rparr>]"
  by (simp add: settled_def handleLiveMessage_def interrupted_part_def audio_part_def transcription_part_def
      turn_complete_only_def turn_pending_def mounted_def at_time_def
      render_def turnComplete_part_def Let_def dispatch_def flush_def refs_def
      append_user_def append_model_def trim_examples utf16_examples)

section \<open>The PCM codec\<close>

text \<open>
  C4. The stored value of a finite sample \<open>x\<close> is the truncation of \<open>x * 32767\<close> reduced
  modulo \<open>2 ^ 16\<close> into the signed range; for \<open>x\<close> in \<open>[-1, 1]\<close> it is the truncation
  itself; outside it wraps and does not saturate: 1.5 is stored as -16386.
\<close>

theorem int16_sample_wraps:
  "sint (int16_sample (Finite x)) = (truncate_real (x * 32767) + 32768) mod 65536 - 32768
   \<and> (- 1 \<le> x \<and> x \<le> 1 \<longrightarrow> sint (int16_sample (Finite x)) = truncate_real (x * 32767))
   \<and> sint (int16_sample (Finite (3 / 2))) = - 16386"
proof -
  have "sint (int16_sample (Finite (3 / 2))) = - 16386"
    by (simp add: int16_sample_def truncate_real_def)
  with int16_sample_exact [of x] show ?thesis by (simp add: int16_sample_def sint_wraps)
qed

theorem int16_sample_wraps_witness:
  "- 1 \<le> (- (1 / 3) :: real) \<and> (- (1 / 3) :: real) \<le> 1
   \<and> sint (int16_sample (Finite (- (1 / 3)))) = - 10922"
proof -
  have t: "truncate_real (- (32767 / 3)) = - 10922" by (simp add: truncate_real_def)
  from int16_sample_wraps [of "- (1 / 3)"] show ?thesis by (simp add: t)
qed

text \<open>
  C5. For samples in \<open>[-1, 1]\<close>, decoding the encoded payload gives back the 16-bit
  values that were stored, one per sample, and each differs from its sample, scaled by
  32767, by less than one unit of the 16-bit representation.
\<close>

theorem payload_roundtrip:
  assumes "\<forall>x \<in> set xs. - 1 \<le> x \<and> x \<le> 1"
  shows "decode_payload (pcm_payload (map Finite xs)) = Some (int16_block (map Finite xs))
       \<and> length (int16_block (map Finite xs)) = length xs
       \<and> (\<forall>i < length xs.
            \<bar>real_of_int (sint (int16_block (map Finite xs) ! i)) - xs ! i * 32767\<bar> < 1
          \<and> \<bar>real_of_int (sint (int16_block (map Finite xs) ! i)) / 32767 - xs ! i\<bar> < 1 / 32767)"
proof -
  have rt: "decode_payload (pcm_payload (map Finite xs)) = Some (int16_block (map Finite xs))"
    by (simp add: decode_payload_def pcm_payload_def decode_encode bytes_int16_bytes)
  have near: "\<bar>real_of_int (sint (int16_block (map Finite xs) ! i)) - xs ! i * 32767\<bar> < 1"
    if "i < length xs" for i
  proof -
    from that assms have "- 1 \<le> xs ! i" "xs ! i \<le> 1" by simp_all
    then have "sint (int16_sample (Finite (xs ! i))) = truncate_real (xs ! i * 32767)"
      by (rule int16_sample_exact)
    with truncate_real_near [of "xs ! i * 32767"] that show ?thesis
      by (simp add: int16_block_def)
  qed
  have scaled: "\<bar>real_of_int (sint (int16_block (map Finite xs) ! i)) / 32767 - xs ! i\<bar> < 1 / 32767"
    if "i < length xs" for i
  proof -
    let ?q = "real_of_int (sint (int16_block (map Finite xs) ! i))"
    from near [OF that] have "- 1 < ?q - xs ! i * 32767" "?q - xs ! i * 32767 < 1"
      by (simp_all add: abs_less_iff)
    then have "- (1 / 32767) < ?q / 32767 - xs ! i" "?q / 32767 - xs ! i < 1 / 32767"
      by (simp_all add: field_simps)
    then show ?thesis by linarith
  qed
  from rt near scaled show ?thesis by (simp add: int16_block_def)
qed

theorem payload_roundtrip_witness:
  "- 1 \<le> (1 / 2 :: real) \<and> (1 / 2 :: real) \<le> 1 \<and> - 1 \<le> (- 1 :: real) \<and> (- 1 :: real) \<le> 1
   \<and> map_option (map sint) (decode_payload (pcm_payload [Finite (1 / 2), Finite (- 1)]))
       = Some [16383, - 32767]"
proof -
  have h: "\<forall>x \<in> set [1 / 2, - 1 :: real]. - 1 \<le> x \<and> x \<le> 1" by simp
  from payload_roundtrip [OF h]
  have "decode_payload (pcm_payload (map Finite [1 / 2, - 1]))
      = Some (int16_block (map Finite [1 / 2, - 1]))"
    by blast
  then show ?thesis
    by (simp add: int16_block_def int16_sample_def truncate_real_def)
qed

section \<open>Sending a chat message\<close>

lemma fullText_run:
  "list_all streaming evs \<Longrightarrow> fullText (stream_run evs s) = fullText s @ streamed_text evs"
proof (induction evs arbitrary: s)
  case Nil
  then show ?case by (simp add: stream_run_def)
next
  case (Cons ev evs)
  then have "fullText (stream_run evs (stream_step s ev)) = fullText (stream_step s ev) @ streamed_text evs"
    by simp
  with Cons.prems show ?case
    by (cases ev) (simp_all add: stream_run_def stream_chunk_def Let_def render_chat_def)
qed

lemma streamed_run:
  assumes "streamed old um s" and "appended old um s" and "list_all streaming evs"
  shows "streamed old um (stream_run evs s)"
  using assms
proof (induction evs arbitrary: s)
  case Nil
  then show ?case by (simp add: stream_run_def)
next
  case (Cons ev evs)
  from Cons.prems have ev: "streaming ev" and rest: "list_all streaming evs" by simp_all
  have "streamed old um (stream_step s ev)"
    using Cons.prems(1,2) ev by (rule streamed_step)
  moreover have "appended old um (stream_step s ev)"
    using Cons.prems(2) by (rule appended_step)
  ultimately have "streamed old um (stream_run evs (stream_step s ev))"
    using rest by (rule Cons.IH)
  then show ?case by (simp add: stream_run_def)
qed

lemma sendMessage_fields:
  assumes "trim (input s) \<noteq> []" and "chat s"
  shows "input (sendMessage quiet s) = []" and "isLoading (sendMessage quiet s)"
    and "requests (sendMessage quiet s) = requests s @ [(input s, useGrounding s)]"
  using assms by (simp_all add: sendMessage_def Let_def)

text \<open>
  C10. With an input that trims to empty, or with no chat session, \<open>sendMessage\<close> changes
  nothing: the state is the same and no request is recorded. Otherwise (nothing queued
  for the list at the call) the next render shows the old list followed by the user
  message and an empty bot message, one request is made, and whatever the stream then
  does (chunks, a failure, the end, renders in between), the list shown is the old list,
  the user message and one bot message. While chunks arrive, that bot message carries
  the text streamed so far.
\<close>

theorem sendMessage_appends:
  "(trim (input s) = [] \<or> \<not> chat s \<longrightarrow> sendMessage quiet s = s)
   \<and> (trim (input s) \<noteq> [] \<and> chat s \<and> pending (messages s) = [] \<longrightarrow>
        shown (sendMessage quiet s) = rendered (messages s) @ [userMessage s, botMessage]
      \<and> input (sendMessage quiet s) = [] \<and> isLoading (sendMessage quiet s)
      \<and> requests (sendMessage quiet s) = requests s @ [(input s, useGrounding s)]
      \<and> (\<forall>evs. \<exists>b. shown (stream_run evs (sendMessage quiet s))
                        = rendered (messages s) @ [userMessage s, b]
                      \<and> sender b = BotSender)
      \<and> (\<forall>evs. list_all streaming evs \<longrightarrow>
            shown (stream_run (Opened # evs) (sendMessage quiet s))
              = rendered (messages s)
                @ [userMessage s,
                   \<lparr>sender = BotSender, message_text = streamed_text evs,
                    message_sources = Some (allSources (stream_run (Opened # evs) (sendMessage quiet s)))\<rparr>]))"
proof -
  have blocked: "sendMessage quiet s = s" if "trim (input s) = [] \<or> \<not> chat s"
    using that by (auto simp: sendMessage_def)
  have passed:
    "shown (sendMessage quiet s) = rendered (messages s) @ [userMessage s, botMessage]
      \<and> input (sendMessage quiet s) = [] \<and> isLoading (sendMessage quiet s)
      \<and> requests (sendMessage quiet s) = requests s @ [(input s, useGrounding s)]
      \<and> (\<forall>evs. \<exists>b. shown (stream_run evs (sendMessage quiet s))
                        = rendered (messages s) @ [userMessage s, b]
                      \<and> sender b = BotSender)
      \<and> (\<forall>evs. list_all streaming evs \<longrightarrow>
            shown (stream_run (Opened # evs) (sendMessage quiet s))
              = rendered (messages s)
                @ [userMessage s,
                   \<lparr>sender = BotSender, message_text = streamed_text evs,
                    message_sources = Some (allSources (stream_run (Opened # evs) (sendMessage quiet s)))\<rparr>])"
    if h: "trim (input s) \<noteq> []" "chat s" "pending (messages s) = []"
  proof -
    let ?s0 = "sendMessage quiet s"
    let ?old = "rendered (messages s)"
    have a: "shown ?s0 = ?old @ [userMessage s, botMessage]"
      by (simp add: shown_outcome sendMessage_outcome [OF h])
    have app: "appended ?old (userMessage s) ?s0" using h by (rule sendMessage_appended)
    have b: "\<exists>b. shown (stream_run evs ?s0) = ?old @ [userMessage s, b] \<and> sender b = BotSender" for evs
      using appended_run [OF app, of evs] unfolding shown_outcome appended_def by blast
    have c: "shown (stream_run (Opened # evs) ?s0)
              = ?old @ [userMessage s,
                   \<lparr>sender = BotSender, message_text = streamed_text evs,
                    message_sources = Some (allSources (stream_run (Opened # evs) ?s0))\<rparr>]"
      if "list_all streaming evs" for evs
    proof -
      let ?s1 = "stream_opened ?s0"
      have r: "stream_run (Opened # evs) ?s0 = stream_run evs ?s1" by (simp add: stream_run_def)
      have app1: "appended ?old (userMessage s) ?s1"
        using appended_step [OF app, of Opened] by simp
      have "outcome (closure ?s1) (messages ?s1) = ?old @ [userMessage s, botMessage]"
        using sendMessage_outcome [OF h, of "closure ?s1" quiet] by (simp add: stream_opened_def)
      then have st1: "streamed ?old (userMessage s) ?s1"
        by (simp add: streamed_def botMessage_def stream_opened_def)
      from streamed_run [OF st1 app1 that] fullText_run [OF that, of ?s1]
      show ?thesis by (simp add: r streamed_def shown_outcome stream_opened_def)
    qed
    from a b c sendMessage_fields [OF h(1,2), of quiet] show ?thesis by blast
  qed
  from blocked passed show ?thesis by blast
qed

theorem sendMessage_appends_witness:
  "trim (input (chatting\<lparr>input := utf16 ''  ''\<rparr>)) = []
   \<and> sendMessage False (chatting\<lparr>input := utf16 ''  ''\<rparr>) = chatting\<lparr>input := utf16 ''  ''\<rparr>
   \<and> trim (input chatting) \<noteq> [] \<and> chat chatting \<and> pending (messages chatting) = []
   \<and> list_all streaming two_chunks
   \<and> shown (sendMessage False chatting)
       = [\<lparr>sender = BotSender, message_text = utf16 ''Hello!'', message_sources = None\<rparr>,
          \<lparr>sender = UserSender, message_text = utf16 ''Hi'', message_sources = None\<rparr>,
          \<lparr>sender = BotSender, message_text = [], message_sources = Some []\<rparr>]
   \<and> map message_text (shown (stream_run (Opened # two_chunks) (sendMessage False chatting)))
       = [utf16 ''Hello!'', utf16 ''Hi'', utf16 ''Good '' @ utf16 ''day'']"
proof -
  have b: "trim (input (chatting\<lparr>input := utf16 ''  ''\<rparr>)) = []" by (simp add: trim_examples)
  have h: "trim (input chatting) \<noteq> []" "chat chatting" "pending (messages chatting) = []"
    by (simp_all add: chatting_def trim_examples utf16_examples)
  have l: "list_all streaming two_chunks" by (simp add: two_chunks_def)
  have t: "streamed_text two_chunks = utf16 ''Good '' @ utf16 ''day''" by (simp add: two_chunks_def)
  have f: "rendered (messages chatting)
      = [\<lparr>sender = BotSender, message_text = utf16 ''Hello!'', message_sources = None\<rparr>]"
    "userMessage chatting = \<lparr>sender = UserSender, message_text = utf16 ''Hi'', message_sources = None\<rparr>"
    by (simp_all add: chatting_def userMessage_def)
  from sendMessage_appends [of "chatting\<lparr>input := utf16 ''  ''\<rparr>" False] b
  have 1: "sendMessage False (chatting\<lparr>input := utf16 ''  ''\<rparr>) = chatting\<lparr>input := utf16 ''  ''\<rparr>"
    by blast
  from sendMessage_appends [of chatting False] h
  have 2: "shown (sendMessage False chatting) = rendered (messages chatting) @ [userMessage chatting, botMessage]"
    and 3: "\<forall>evs. list_all streaming evs \<longrightarrow>
            shown (stream_run (Opened # evs) (sendMessage False chatting))
              = rendered (messages chatting)
                @ [userMessage chatting,
                   \<lparr>sender = BotSender, message_text = streamed_text evs,
                    message_sources = Some (allSources (stream_run (Opened # evs) (sendMessage False chatting)))\<rparr>]"
    by blast+
  from 3 l have 4: "map message_text (shown (stream_run (Opened # two_chunks) (sendMessage False chatting)))
       = [utf16 ''Hello!'', utf16 ''Hi'', utf16 ''Good '' @ utf16 ''day'']"
    by (simp add: f t)
  from 1 2 4 b h l show ?thesis by (simp add: f botMessage_def)
qed

end
